theory Spec2Isabelle
  imports Main "HOL-Library.Word" "HOL-Library.AList"
begin

section \<open>Shared data model\<close>

text \<open>
  A hash is a fixed array of 20 bytes, compared by value; the zero value stands for
  "absent". Payloads are byte slices. Offsets and lengths are \<open>int64\<close> in the source;
  no arithmetic is done on them except \<open>int64(len(patched))\<close>, so they are integers here.
\<close>

type_synonym Hash = "160 word"

abbreviation ZeroHash :: Hash where
  "ZeroHash \<equiv> 0"

type_synonym bytes = "8 word list"

text \<open>
  Error values. The sentinel errors of \<open>plumbing\<close> and of \<open>parser.go\<close> are compared by
  identity in the source and are constructors here. \<open>ErrNotExist\<close> is the class of errors
  that \<open>os.IsNotExist\<close> accepts, \<open>Errorf\<close> any other error value (named by its message),
  \<open>Panic\<close> a run-time panic (nil map write, nil dereference, negative \<open>make\<close>).
\<close>

datatype error =
    ErrObjectNotFound
  | ErrInvalidType
  | ErrReferenceDeltaNotFound
  | ErrNotSeekableSource
  | ErrDeltaNotCached
  | EOF
  | ErrNotExist
  | Errorf string
  | Panic string

definition IsNotExist :: "error \<Rightarrow> bool" where
  "IsNotExist e = (e = ErrNotExist)"

definition isPanic :: "error \<Rightarrow> bool" where
  "isPanic e = (case e of Panic m \<Rightarrow> True | _ \<Rightarrow> False)"

text \<open>
  \<open>plumbing.ObjectType\<close>: the four object kinds, the two disk-only delta kinds, the
  query wildcard, and the zero value of the type (\<open>InvalidObject\<close>).
\<close>

datatype ObjectType =
    InvalidObject
  | CommitObject
  | TreeObject
  | BlobObject
  | TagObject
  | OFSDeltaObject
  | REFDeltaObject
  | AnyObject

definition IsDelta :: "ObjectType \<Rightarrow> bool" where
  "IsDelta t = (t = REFDeltaObject \<or> t = OFSDeltaObject)"

section \<open>x/gitService/msgs.go: reference update commands\<close>

type_synonym UpdateReferenceAction = string

definition CreateAction :: UpdateReferenceAction where
  "CreateAction = ''create''"

definition UpdateAction :: UpdateReferenceAction where
  "UpdateAction = ''update''"

definition DeleteAction :: UpdateReferenceAction where
  "DeleteAction = ''delete''"

definition InvalidAction :: UpdateReferenceAction where
  "InvalidAction = ''invalid''"

record UpdateReferenceCommand =
  Name :: string
  Old :: Hash
  New :: Hash

definition Action :: "UpdateReferenceCommand \<Rightarrow> UpdateReferenceAction" where
  "Action c =
     (if Old c = ZeroHash \<and> New c = ZeroHash then InvalidAction
      else if Old c = ZeroHash then CreateAction
      else if New c = ZeroHash then DeleteAction
      else UpdateAction)"

definition validate :: "UpdateReferenceCommand \<Rightarrow> error option" where
  "validate c =
     (if Action c = InvalidAction then Some (Errorf ''Malformed command'') else None)"

section \<open>Interfaces the parser works against\<close>

text \<open>
  An encoded object as the \<open>plumbing.EncodedObject\<close> interface presents it: the results of
  its methods. \<open>Reader()\<close> gives an error or a reader; of a reader the model keeps what one
  \<open>Read\<close> into a fresh buffer of \<open>n\<close> bytes leaves in that buffer (or the error it
  returns), what \<open>io.Copy\<close> drains from it, and the result of \<open>Close\<close>.
\<close>

record Reader =
  rd_Read :: "nat \<Rightarrow> error + bytes"
  rd_All :: "error + bytes"
  rd_Close :: "error option"

record encodedObject =
  eo_Hash :: Hash
  eo_Type :: ObjectType
  eo_Size :: int
  eo_Reader :: "error + Reader"

text \<open>
  \<open>plumbing.MemoryObject\<close> (outside src/): \<open>SetType\<close> and \<open>SetSize\<close> store their
  argument, \<open>Write\<close> appends to the content and sets the size to the content's length and
  returns no error. A new object has the zero type, size 0 and no content.
\<close>

record MemoryObject =
  mo_t :: ObjectType
  mo_sz :: int
  mo_cont :: bytes

definition newMemoryObject :: MemoryObject where
  "newMemoryObject = \<lparr>mo_t = InvalidObject, mo_sz = 0, mo_cont = []\<rparr>"

definition SetSize :: "int \<Rightarrow> MemoryObject \<Rightarrow> MemoryObject" where
  "SetSize n obj = obj\<lparr>mo_sz := n\<rparr>"

definition SetType :: "ObjectType \<Rightarrow> MemoryObject \<Rightarrow> MemoryObject" where
  "SetType t obj = obj\<lparr>mo_t := t\<rparr>"

definition Write :: "bytes \<Rightarrow> MemoryObject \<Rightarrow> MemoryObject" where
  "Write data obj =
     obj\<lparr>mo_cont := mo_cont obj @ data, mo_sz := int (length (mo_cont obj @ data))\<rparr>"

text \<open>The header the scanner reports for a pack entry.\<close>

record ObjectHeader =
  oh_Type :: ObjectType
  oh_Offset :: int
  oh_Length :: int
  oh_Reference :: Hash
  oh_OffsetReference :: int

text \<open>
  The collaborators of the parser that live outside src/ are parameters: the scanner
  (over its own state \<open>'sc\<close>), the storage behind the \<open>storer.EncodedObjectStorer\<close>
  interface (over its own state \<open>'st\<close>), the object hasher, the delta applier and the
  default byte budget of the buffer cache. Every operation returns its result together with
  the collaborator's next state. \<open>sc_Checksum\<close> returns a hash and an error side by side,
  since \<open>Parse\<close> keeps the hash when the error is \<open>io.EOF\<close>.
\<close>

record ('sc, 'st) env =
  sc_IsSeekable :: "'sc \<Rightarrow> bool"
  sc_Header :: "'sc \<Rightarrow> (error + 32 word \<times> 32 word) \<times> 'sc"
  sc_NextObjectHeader :: "'sc \<Rightarrow> (error + ObjectHeader) \<times> 'sc"
  sc_NextObject :: "'sc \<Rightarrow> (error + bytes \<times> 32 word) \<times> 'sc"
  sc_SeekFromStart :: "'sc \<Rightarrow> int \<Rightarrow> (error + int) \<times> 'sc"
  sc_Checksum :: "'sc \<Rightarrow> (Hash \<times> error option) \<times> 'sc"
  st_EncodedObject :: "'st \<Rightarrow> ObjectType \<Rightarrow> Hash \<Rightarrow> (error + encodedObject) \<times> 'st"
  st_SetEncodedObject :: "'st \<Rightarrow> MemoryObject \<Rightarrow> (Hash \<times> error option) \<times> 'st"
  hasher_Write :: "ObjectType \<Rightarrow> bytes \<Rightarrow> error option"
  hasher_Sum :: "ObjectType \<Rightarrow> bytes \<Rightarrow> Hash"
  PatchDelta :: "bytes \<Rightarrow> bytes \<Rightarrow> error + bytes"
  DefaultMaxSize :: nat

section \<open>The buffer cache of the parser\<close>

text \<open>
  Modelled from the spec: \<open>cache.BufferLRU\<close> (plumbing/cache, outside src/). A mapping from
  pack offsets to payloads with a byte budget; the entry last read or written is the most
  recent one, and entries are evicted from the least recent end while the budget is
  exceeded. The list is ordered most recent first.
\<close>

record BufferLRU =
  MaxSize :: nat
  ents :: "(int \<times> bytes) list"

definition NewBufferLRU :: "nat \<Rightarrow> BufferLRU" where
  "NewBufferLRU n = \<lparr>MaxSize = n, ents = []\<rparr>"

definition actualSize :: "(int \<times> bytes) list \<Rightarrow> nat" where
  "actualSize es = sum_list (map (\<lambda>(k, b). length b) es)"

function evict :: "nat \<Rightarrow> (int \<times> bytes) list \<Rightarrow> (int \<times> bytes) list" where
  "evict m es = (if actualSize es > m \<and> es \<noteq> [] then evict m (butlast es) else es)"
  by pat_completeness auto
termination
  by (relation "measure (\<lambda>(m, es). length es)") auto

definition BufferLRU_Put :: "int \<Rightarrow> bytes \<Rightarrow> BufferLRU \<Rightarrow> BufferLRU" where
  "BufferLRU_Put key buf c =
     (case map_of (ents c) key of
        Some old \<Rightarrow>
          c\<lparr>ents := evict (MaxSize c) ((key, buf) # filter (\<lambda>(k, b). k \<noteq> key) (ents c))\<rparr>
      | None \<Rightarrow>
          if length buf > MaxSize c then c
          else c\<lparr>ents := evict (MaxSize c) ((key, buf) # ents c)\<rparr>)"

definition BufferLRU_Get :: "int \<Rightarrow> BufferLRU \<Rightarrow> bytes option \<times> BufferLRU" where
  "BufferLRU_Get key c =
     (case map_of (ents c) key of
        None \<Rightarrow> (None, c)
      | Some b \<Rightarrow> (Some b, c\<lparr>ents := (key, b) # filter (\<lambda>(k, b). k \<noteq> key) (ents c)\<rparr>))"

section \<open>plumbing/format/packfile/parser.go\<close>

subsection \<open>Observers\<close>

text \<open>
  The four callbacks of the \<open>Observer\<close> interface with their arguments. An observer is a
  deterministic object: what a callback returns is a function of the callbacks the observer
  has received so far, the current one last. The parser state records every callback made:
  the index of the observer in \<open>p.ob\<close>, the callback, and what it returned.
\<close>

datatype event =
    OnHeader "32 word"
  | OnInflatedObjectHeader ObjectType int int
  | OnInflatedObjectContent Hash int "32 word" bytes
  | OnFooter Hash

type_synonym Observer = "event list \<Rightarrow> error option"

type_synonym call = "nat \<times> event \<times> error option"

definition events_of :: "nat \<Rightarrow> call list \<Rightarrow> event list" where
  "events_of j cs = map (\<lambda>c. fst (snd c)) (filter (\<lambda>c. fst c = j) cs)"

subsection \<open>Parser state\<close>

text \<open>
  \<open>objectInfo\<close> nodes are heap objects that the source links by pointers (\<open>Parent\<close>,
  \<open>Children\<close>, the values of \<open>oiByHash\<close> and \<open>oiByOffset\<close>, the elements of \<open>oi\<close>) and
  mutates in place. The model keeps them in \<open>heap\<close>, in allocation order; a pointer is the
  index of the node, a nil pointer is \<open>None\<close>. Nodes are never freed, so an index handed
  out by \<open>alloc\<close> stays in range.
\<close>

record objectInfo =
  Offset :: int
  Length :: int
  Type :: ObjectType
  DiskType :: ObjectType
  ExternalRef :: bool
  Crc32 :: "32 word"
  Parent :: "nat option"
  Children :: "nat list"
  SHA1 :: Hash

text \<open>
  The \<open>deltas\<close> map is nil unless the constructor allocates it, which is \<open>None\<close> here; the
  maps \<open>oiByHash\<close> and \<open>oiByOffset\<close> are allocated by \<open>init\<close> before anything is
  stored in them.
\<close>

record ('sc, 'st) Parser =
  storage :: "'st option"
  scanner :: 'sc
  count :: "32 word"
  oi :: "nat option list"
  oiByHash :: "Hash \<rightharpoonup> nat"
  oiByOffset :: "int \<rightharpoonup> nat"
  checksum :: Hash
  cache :: BufferLRU
  deltas :: "(int \<rightharpoonup> bytes) option"
  ob :: "Observer list"
  heap :: "objectInfo list"
  calls :: "call list"

definition node :: "('sc, 'st) Parser \<Rightarrow> nat \<Rightarrow> objectInfo" where
  "node p a = heap p ! a"

definition modify :: "nat \<Rightarrow> (objectInfo \<Rightarrow> objectInfo) \<Rightarrow> ('sc, 'st) Parser \<Rightarrow> ('sc, 'st) Parser" where
  "modify a f p = p\<lparr>heap := (heap p)[a := f (heap p ! a)]\<rparr>"

definition alloc :: "objectInfo \<Rightarrow> ('sc, 'st) Parser \<Rightarrow> nat \<times> ('sc, 'st) Parser" where
  "alloc v p = (length (heap p), p\<lparr>heap := heap p @ [v]\<rparr>)"

definition newDeltaObject :: "int \<Rightarrow> int \<Rightarrow> ObjectType \<Rightarrow> nat option \<Rightarrow> objectInfo" where
  "newDeltaObject offset len t parent =
     \<lparr>Offset = offset, Length = len, Type = t, DiskType = t, ExternalRef = False,
      Crc32 = 0, Parent = parent, Children = [], SHA1 = ZeroHash\<rparr>"

definition newBaseObject :: "int \<Rightarrow> int \<Rightarrow> ObjectType \<Rightarrow> objectInfo" where
  "newBaseObject offset len t = newDeltaObject offset len t None"

subsection \<open>Construction\<close>

definition NewParserWithStorage ::
  "('sc, 'st) env \<Rightarrow> 'sc \<Rightarrow> 'st option \<Rightarrow> Observer list \<Rightarrow> error + ('sc, 'st) Parser" where
  "NewParserWithStorage env sc st obs =
     (if \<not> sc_IsSeekable env sc \<and> st = None then Inl ErrNotSeekableSource
      else
        let ds = (if \<not> sc_IsSeekable env sc then Some Map.empty else None)
        in Inr \<lparr>storage = st, scanner = sc, count = 0, oi = [], oiByHash = Map.empty,
                oiByOffset = Map.empty, checksum = ZeroHash,
                cache = NewBufferLRU (DefaultMaxSize env), deltas = ds, ob = obs,
                heap = [], calls = []\<rparr>)"

definition NewParser :: "('sc, 'st) env \<Rightarrow> 'sc \<Rightarrow> Observer list \<Rightarrow> error + ('sc, 'st) Parser" where
  "NewParser env sc obs = NewParserWithStorage env sc None obs"

subsection \<open>Calling the observers\<close>

text \<open>
  \<open>forEachObserver\<close> walks \<open>p.ob\<close> in order and stops at the first callback that
  returns an error. \<open>deliver\<close> is its loop, over the observers still to be called.
\<close>

fun deliver :: "event \<Rightarrow> (nat \<times> Observer) list \<Rightarrow> call list \<Rightarrow> error option \<times> call list" where
  "deliver ev [] cs = (None, cs)"
| "deliver ev ((j, obs) # rest) cs =
     (case obs (events_of j cs @ [ev]) of
        Some e \<Rightarrow> (Some e, cs @ [(j, ev, Some e)])
      | None \<Rightarrow> deliver ev rest (cs @ [(j, ev, None)]))"

definition forEachObserver :: "event \<Rightarrow> ('sc, 'st) Parser \<Rightarrow> error option \<times> ('sc, 'st) Parser" where
  "forEachObserver ev p =
     (case deliver ev (enumerate 0 (ob p)) (calls p) of (r, cs) \<Rightarrow> (r, p\<lparr>calls := cs\<rparr>))"

definition onHeader :: "32 word \<Rightarrow> ('sc, 'st) Parser \<Rightarrow> error option \<times> ('sc, 'st) Parser" where
  "onHeader c p = forEachObserver (OnHeader c) p"

definition onInflatedObjectHeader ::
  "ObjectType \<Rightarrow> int \<Rightarrow> int \<Rightarrow> ('sc, 'st) Parser \<Rightarrow> error option \<times> ('sc, 'st) Parser" where
  "onInflatedObjectHeader t objSize pos p = forEachObserver (OnInflatedObjectHeader t objSize pos) p"

definition onInflatedObjectContent ::
  "Hash \<Rightarrow> int \<Rightarrow> 32 word \<Rightarrow> bytes \<Rightarrow> ('sc, 'st) Parser \<Rightarrow> error option \<times> ('sc, 'st) Parser" where
  "onInflatedObjectContent h pos crc content p =
     forEachObserver (OnInflatedObjectContent h pos crc content) p"

definition onFooter :: "Hash \<Rightarrow> ('sc, 'st) Parser \<Rightarrow> error option \<times> ('sc, 'st) Parser" where
  "onFooter h p = forEachObserver (OnFooter h) p"

subsection \<open>Index pass\<close>

definition init :: "('sc, 'st) env \<Rightarrow> ('sc, 'st) Parser \<Rightarrow> error option \<times> ('sc, 'st) Parser" where
  "init env p =
     (case sc_Header env (scanner p) of
        (Inl e, sc) \<Rightarrow> (Some e, p\<lparr>scanner := sc\<rparr>)
      | (Inr (v, c), sc) \<Rightarrow>
          (case onHeader c (p\<lparr>scanner := sc\<rparr>) of
             (Some e, p1) \<Rightarrow> (Some e, p1)
           | (None, p1) \<Rightarrow>
               (None, p1\<lparr>count := c, oiByHash := Map.empty, oiByOffset := Map.empty,
                         oi := replicate (unat c) None\<rparr>)))"

definition getSHA1 :: "('sc, 'st) env \<Rightarrow> ObjectType \<Rightarrow> bytes \<Rightarrow> error + Hash" where
  "getSHA1 env t data =
     (case hasher_Write env t data of Some e \<Rightarrow> Inl e | None \<Rightarrow> Inr (hasher_Sum env t data))"

text \<open>
  The \<open>switch\<close> of \<open>indexObjects\<close> on the type of the header: it yields the \<open>delta\<close>
  flag and the new node \<open>ota\<close>.
\<close>

definition indexSwitch ::
  "ObjectHeader \<Rightarrow> ('sc, 'st) Parser \<Rightarrow> (error + bool \<times> nat) \<times> ('sc, 'st) Parser" where
  "indexSwitch oh p =
     (let t = oh_Type oh in
      if t = OFSDeltaObject then
        (case oiByOffset p (oh_OffsetReference oh) of
           None \<Rightarrow> (Inl ErrObjectNotFound, p)
         | Some parent \<Rightarrow>
             (case alloc (newDeltaObject (oh_Offset oh) (oh_Length oh) t (Some parent)) p of
                (ota, p1) \<Rightarrow>
                  (Inr (True, ota), modify parent (\<lambda>n. n\<lparr>Children := Children n @ [ota]\<rparr>) p1)))
      else if t = REFDeltaObject then
        (case (case oiByHash p (oh_Reference oh) of
                 None \<Rightarrow>
                   (case alloc \<lparr>Offset = 0, Length = 0, Type = AnyObject, DiskType = AnyObject,
                                ExternalRef = True, Crc32 = 0, Parent = None, Children = [],
                                SHA1 = oh_Reference oh\<rparr> p of
                      (parent, p1) \<Rightarrow>
                        (parent, p1\<lparr>oiByHash := (oiByHash p1)(oh_Reference oh \<mapsto> parent)\<rparr>))
               | Some parent \<Rightarrow> (parent, p)) of
           (parent, p1) \<Rightarrow>
             (case alloc (newDeltaObject (oh_Offset oh) (oh_Length oh) t (Some parent)) p1 of
                (ota, p2) \<Rightarrow>
                  (Inr (True, ota), modify parent (\<lambda>n. n\<lparr>Children := Children n @ [ota]\<rparr>) p2)))
      else
        (case alloc (newBaseObject (oh_Offset oh) (oh_Length oh) t) p of
           (ota, p1) \<Rightarrow> (Inr (False, ota), p1)))"

text \<open>The rest of the loop body, from \<open>NextObject\<close> on.\<close>

definition indexPayload ::
  "('sc, 'st) env \<Rightarrow> nat \<Rightarrow> ObjectHeader \<Rightarrow> bool \<Rightarrow> nat \<Rightarrow> ('sc, 'st) Parser
     \<Rightarrow> error option \<times> ('sc, 'st) Parser" where
  "indexPayload env i oh delta ota p =
     (case sc_NextObject env (scanner p) of
        (Inl e, sc) \<Rightarrow> (Some e, p\<lparr>scanner := sc\<rparr>)
      | (Inr (data, crc), sc) \<Rightarrow>
          (let p1 = modify ota (\<lambda>n. n\<lparr>Crc32 := crc, Length := oh_Length oh\<rparr>) (p\<lparr>scanner := sc\<rparr>) in
           case (if \<not> delta then
                   (case getSHA1 env (Type (node p1 ota)) data of
                      Inl e \<Rightarrow> (Some e, p1)
                    | Inr sha1 \<Rightarrow>
                        (let p2 = modify ota (\<lambda>n. n\<lparr>SHA1 := sha1\<rparr>) p1
                         in (None, p2\<lparr>oiByHash := (oiByHash p2)(sha1 \<mapsto> ota)\<rparr>)))
                 else (None, p1)) of
             (Some e, p2) \<Rightarrow> (Some e, p2)
           | (None, p2) \<Rightarrow>
               (case (case storage p2 of
                        Some st \<Rightarrow>
                          if \<not> delta then
                            (case st_SetEncodedObject env st
                                    (Write data (SetType (oh_Type oh) (SetSize (oh_Length oh) newMemoryObject))) of
                               ((h, Some e), st') \<Rightarrow> (Some e, p2\<lparr>storage := Some st'\<rparr>)
                             | ((h, None), st') \<Rightarrow> (None, p2\<lparr>storage := Some st'\<rparr>))
                          else (None, p2)
                      | None \<Rightarrow> (None, p2)) of
                  (Some e, p3) \<Rightarrow> (Some e, p3)
                | (None, p3) \<Rightarrow>
                    (case (if delta \<and> \<not> sc_IsSeekable env (scanner p3) then
                             (case deltas p3 of
                                None \<Rightarrow> (Some (Panic ''assignment to entry in nil map''), p3)
                              | Some d \<Rightarrow> (None, p3\<lparr>deltas := Some (d(oh_Offset oh \<mapsto> data))\<rparr>))
                           else (None, p3)) of
                       (Some e, p4) \<Rightarrow> (Some e, p4)
                     | (None, p4) \<Rightarrow>
                         if i < length (oi p4) then
                           (None, p4\<lparr>oiByOffset := (oiByOffset p4)(oh_Offset oh \<mapsto> ota),
                                     oi := (oi p4)[i := Some ota]\<rparr>)
                         else (Some (Panic ''index out of range''), p4\<lparr>oiByOffset := (oiByOffset p4)(oh_Offset oh \<mapsto> ota)\<rparr>)))))"

text \<open>One iteration of the loop of \<open>indexObjects\<close>.\<close>

definition indexObject ::
  "('sc, 'st) env \<Rightarrow> nat \<Rightarrow> ('sc, 'st) Parser \<Rightarrow> error option \<times> ('sc, 'st) Parser" where
  "indexObject env i p =
     (case sc_NextObjectHeader env (scanner p) of
        (Inl e, sc) \<Rightarrow> (Some e, p\<lparr>scanner := sc\<rparr>)
      | (Inr oh, sc) \<Rightarrow>
          (case indexSwitch oh (p\<lparr>scanner := sc\<rparr>) of
             (Inl e, p1) \<Rightarrow> (Some e, p1)
           | (Inr (delta, ota), p1) \<Rightarrow> indexPayload env i oh delta ota p1))"

lemma deliver_calls_only:
  "forEachObserver ev p = (r, p') \<Longrightarrow> p' = p\<lparr>calls := calls p'\<rparr>"
  by (auto simp: forEachObserver_def split: prod.splits)

lemma indexSwitch_count: "indexSwitch oh p = (r, p') \<Longrightarrow> count p' = count p"
  by (auto simp: indexSwitch_def alloc_def modify_def Let_def split: if_splits option.splits)

lemma indexPayload_count: "indexPayload env i oh delta ota p = (r, p') \<Longrightarrow> count p' = count p"
  by (auto simp: indexPayload_def modify_def Let_def
           split: if_splits option.splits sum.splits prod.splits)

lemma indexObject_count: "indexObject env i p = (r, p') \<Longrightarrow> count p' = count p"
  by (auto simp: indexObject_def split: sum.splits prod.splits
           dest!: indexSwitch_count indexPayload_count)

function indexLoop ::
  "('sc, 'st) env \<Rightarrow> nat \<Rightarrow> ('sc, 'st) Parser \<Rightarrow> error option \<times> ('sc, 'st) Parser" where
  "indexLoop env i p =
     (if i < unat (count p) then
        (case indexObject env i p of
           (Some e, p') \<Rightarrow> (Some e, p')
         | (None, p') \<Rightarrow> indexLoop env (i + 1) p')
      else (None, p))"
  by pat_completeness auto
termination
proof (relation "measure (\<lambda>(env, i, p). unat (count p) - i)")
  show "wf (measure (\<lambda>(env, i, p). unat (count p) - i))"
    by simp
next
  fix env :: "('sc, 'st) env" and i p x1 and p' :: "('sc, 'st) Parser" and x2
  assume "i < unat (count p)" and "(x1, p') = indexObject env i p"
  then show "((env, i + 1, p'), (env, i, p)) \<in> measure (\<lambda>(env, i, p). unat (count p) - i)"
    using indexObject_count [of env i p x1 p'] by simp
qed

declare indexLoop.simps [simp del]

definition indexObjects :: "('sc, 'st) env \<Rightarrow> ('sc, 'st) Parser \<Rightarrow> error option \<times> ('sc, 'st) Parser" where
  "indexObjects env p = indexLoop env 0 p"

subsection \<open>Resolve pass\<close>

definition readData :: "('sc, 'st) env \<Rightarrow> nat \<Rightarrow> ('sc, 'st) Parser \<Rightarrow> (error + bytes) \<times> ('sc, 'st) Parser" where
  "readData env a p =
     (if \<not> sc_IsSeekable env (scanner p) \<and> IsDelta (DiskType (node p a)) then
        (case (case deltas p of None \<Rightarrow> None | Some d \<Rightarrow> d (Offset (node p a))) of
           None \<Rightarrow> (Inl ErrDeltaNotCached, p)
         | Some data \<Rightarrow> (Inr data, p))
      else
        (case sc_SeekFromStart env (scanner p) (Offset (node p a)) of
           (Inl e, sc) \<Rightarrow> (Inl e, p\<lparr>scanner := sc\<rparr>)
         | (Inr pos, sc) \<Rightarrow>
             (case sc_NextObjectHeader env sc of
                (Inl e, sc1) \<Rightarrow> (Inl e, p\<lparr>scanner := sc1\<rparr>)
              | (Inr oh, sc1) \<Rightarrow>
                  (case sc_NextObject env sc1 of
                     (Inl e, sc2) \<Rightarrow> (Inl e, p\<lparr>scanner := sc2\<rparr>)
                   | (Inr (data, crc), sc2) \<Rightarrow> (Inr data, p\<lparr>scanner := sc2\<rparr>)))))"

definition applyPatchBase ::
  "('sc, 'st) env \<Rightarrow> nat \<Rightarrow> bytes \<Rightarrow> bytes \<Rightarrow> ('sc, 'st) Parser \<Rightarrow> (error + bytes) \<times> ('sc, 'st) Parser" where
  "applyPatchBase env ota data base p =
     (case PatchDelta env base data of
        Inl e \<Rightarrow> (Inl e, p)
      | Inr patched \<Rightarrow>
          if SHA1 (node p ota) = ZeroHash then
            (case Parent (node p ota) of
               None \<Rightarrow> (Inl (Panic ''nil pointer dereference''), p)
             | Some parent \<Rightarrow>
                 (let p1 = modify ota (\<lambda>n. n\<lparr>Type := Type (node p parent)\<rparr>) p in
                  case getSHA1 env (Type (node p1 ota)) patched of
                    Inl e \<Rightarrow> (Inl e, p1)
                  | Inr sha1 \<Rightarrow>
                      (Inr patched,
                       modify ota (\<lambda>n. n\<lparr>SHA1 := sha1, Length := int (length patched)\<rparr>) p1)))
          else (Inr patched, p))"

definition resolveObject ::
  "('sc, 'st) env \<Rightarrow> nat \<Rightarrow> bytes \<Rightarrow> ('sc, 'st) Parser \<Rightarrow> (error + bytes) \<times> ('sc, 'st) Parser" where
  "resolveObject env a base p =
     (if \<not> IsDelta (DiskType (node p a)) then (Inr [], p)
      else
        (case readData env a p of
           (Inl e, p1) \<Rightarrow> (Inl e, p1)
         | (Inr data, p1) \<Rightarrow>
             (case applyPatchBase env a data base p1 of
                (Inl e, p2) \<Rightarrow> (Inl e, p2)
              | (Inr patched, p2) \<Rightarrow>
                  (case storage p2 of
                     None \<Rightarrow> (Inr patched, p2)
                   | Some st \<Rightarrow>
                       (case st_SetEncodedObject env st
                               (Write patched (SetType (Type (node p2 a))
                                  (SetSize (Length (node p2 a)) newMemoryObject))) of
                          ((h, Some e), st') \<Rightarrow> (Inl e, p2\<lparr>storage := Some st'\<rparr>)
                        | ((h, None), st') \<Rightarrow> (Inr patched, p2\<lparr>storage := Some st'\<rparr>))))))"

text \<open>
  The first half of \<open>get\<close>: the cache probe (skipped for a placeholder), then the storage.
  The result is the buffer \<open>b\<close>, \<open>None\<close> while it is still nil. A cache hit counts as a
  buffer; slices are lists here, so a cached nil slice is not told apart from an empty one.
\<close>

definition getStored ::
  "('sc, 'st) env \<Rightarrow> nat \<Rightarrow> ('sc, 'st) Parser \<Rightarrow> (error + bytes option) \<times> ('sc, 'st) Parser" where
  "getStored env a p =
     (case (if \<not> ExternalRef (node p a) then
              (case BufferLRU_Get (Offset (node p a)) (cache p) of
                 (b, c) \<Rightarrow> (b, p\<lparr>cache := c\<rparr>))
            else (None, p)) of
        (Some b, p1) \<Rightarrow> (Inr (Some b), p1)
      | (None, p1) \<Rightarrow>
          (case storage p1 of
             None \<Rightarrow> (Inr None, p1)
           | Some st \<Rightarrow>
               if IsDelta (Type (node p1 a)) then (Inr None, p1)
               else
                 (case st_EncodedObject env st AnyObject (SHA1 (node p1 a)) of
                    (Inl e, st') \<Rightarrow> (Inl e, p1\<lparr>storage := Some st'\<rparr>)
                  | (Inr e, st') \<Rightarrow>
                      (let p2 = modify a (\<lambda>n. n\<lparr>Type := eo_Type e\<rparr>) (p1\<lparr>storage := Some st'\<rparr>) in
                       case eo_Reader e of
                         Inl err \<Rightarrow> (Inl err, p2)
                       | Inr r \<Rightarrow>
                           if eo_Size e < 0 then (Inl (Panic ''makeslice: len out of range''), p2)
                           else
                             (case rd_Read r (nat (eo_Size e)) of
                                Inl err \<Rightarrow> (Inl err, p2)
                              | Inr b \<Rightarrow> (Inr (Some b), p2))))))"

text \<open>
  \<open>get\<close> calls itself on the parent of a delta node. The chain of parents has no bound
  that the function itself checks, so the model counts the nested calls: \<open>None\<close> means the
  count \<open>fuel\<close> was used up before \<open>get\<close> returned.
\<close>

fun get ::
  "nat \<Rightarrow> ('sc, 'st) env \<Rightarrow> nat \<Rightarrow> ('sc, 'st) Parser \<Rightarrow> ((error + bytes) \<times> ('sc, 'st) Parser) option" where
  "get 0 env a p = None"
| "get (Suc fuel) env a p =
     (case getStored env a p of
        (Inl e, p1) \<Rightarrow> Some (Inl e, p1)
      | (Inr (Some b), p1) \<Rightarrow> Some (Inr b, p1)
      | (Inr None, p1) \<Rightarrow>
          if ExternalRef (node p1 a) then Some (Inl ErrReferenceDeltaNotFound, p1)
          else
            (case (if IsDelta (DiskType (node p1 a)) then
                     (case Parent (node p1 a) of
                        None \<Rightarrow> Some (Inl (Panic ''nil pointer dereference''), p1)
                      | Some parent \<Rightarrow>
                          (case get fuel env parent p1 of
                             None \<Rightarrow> None
                           | Some (Inl e, p2) \<Rightarrow> Some (Inl e, p2)
                           | Some (Inr base, p2) \<Rightarrow> Some (resolveObject env a base p2)))
                   else Some (readData env a p1)) of
               None \<Rightarrow> None
             | Some (Inl e, p3) \<Rightarrow> Some (Inl e, p3)
             | Some (Inr data, p3) \<Rightarrow>
                 Some (Inr data,
                       if length (Children (node p3 a)) > 0
                       then p3\<lparr>cache := BufferLRU_Put (Offset (node p3 a)) data (cache p3)\<rparr>
                       else p3)))"

fun resolveChildren ::
  "('sc, 'st) env \<Rightarrow> nat list \<Rightarrow> bytes \<Rightarrow> ('sc, 'st) Parser \<Rightarrow> error option \<times> ('sc, 'st) Parser" where
  "resolveChildren env [] content p = (None, p)"
| "resolveChildren env (child # rest) content p =
     (case resolveObject env child content p of
        (Inl e, p1) \<Rightarrow> (Some e, p1)
      | (Inr b, p1) \<Rightarrow> resolveChildren env rest content p1)"

text \<open>One iteration of the loop of \<open>resolveDeltas\<close>, for the element \<open>obj\<close> of \<open>p.oi\<close>.\<close>

definition resolveOne ::
  "nat \<Rightarrow> ('sc, 'st) env \<Rightarrow> nat option \<Rightarrow> ('sc, 'st) Parser \<Rightarrow> (error option \<times> ('sc, 'st) Parser) option" where
  "resolveOne fuel env obj p =
     (case obj of
        None \<Rightarrow> Some (Some (Panic ''nil pointer dereference''), p)
      | Some a \<Rightarrow>
          (case get fuel env a p of
             None \<Rightarrow> None
           | Some (Inl e, p1) \<Rightarrow> Some (Some e, p1)
           | Some (Inr content, p1) \<Rightarrow>
               Some
                 (case onInflatedObjectHeader (Type (node p1 a)) (Length (node p1 a)) (Offset (node p1 a)) p1 of
                    (Some e, p2) \<Rightarrow> (Some e, p2)
                  | (None, p2) \<Rightarrow>
                      (case onInflatedObjectContent (SHA1 (node p2 a)) (Offset (node p2 a))
                              (Crc32 (node p2 a)) content p2 of
                         (Some e, p3) \<Rightarrow> (Some e, p3)
                       | (None, p3) \<Rightarrow>
                           if \<not> IsDelta (Type (node p3 a)) \<and> length (Children (node p3 a)) > 0 then
                             (case resolveChildren env (Children (node p3 a)) content p3 of
                                (Some e, p4) \<Rightarrow> (Some e, p4)
                              | (None, p4) \<Rightarrow>
                                  (None,
                                   if IsDelta (DiskType (node p4 a)) \<and> \<not> sc_IsSeekable env (scanner p4)
                                   then p4\<lparr>deltas := map_option (\<lambda>d. d(Offset (node p4 a) := None)) (deltas p4)\<rparr>
                                   else p4))
                           else (None, p3)))))"

fun resolveLoop ::
  "nat \<Rightarrow> ('sc, 'st) env \<Rightarrow> nat option list \<Rightarrow> ('sc, 'st) Parser \<Rightarrow> (error option \<times> ('sc, 'st) Parser) option" where
  "resolveLoop fuel env [] p = Some (None, p)"
| "resolveLoop fuel env (obj # objs) p =
     (case resolveOne fuel env obj p of
        None \<Rightarrow> None
      | Some (Some e, p1) \<Rightarrow> Some (Some e, p1)
      | Some (None, p1) \<Rightarrow> resolveLoop fuel env objs p1)"

definition resolveDeltas ::
  "nat \<Rightarrow> ('sc, 'st) env \<Rightarrow> ('sc, 'st) Parser \<Rightarrow> (error option \<times> ('sc, 'st) Parser) option" where
  "resolveDeltas fuel env p = resolveLoop fuel env (oi p) p"

subsection \<open>Parse\<close>

text \<open>
  \<open>Parse\<close> returns the pair of a hash and an error; the hash is the zero hash whenever the
  error is not nil, so the result is \<open>Inl\<close> of the error or \<open>Inr\<close> of the checksum.
\<close>

definition Parse ::
  "nat \<Rightarrow> ('sc, 'st) env \<Rightarrow> ('sc, 'st) Parser \<Rightarrow> ((error + Hash) \<times> ('sc, 'st) Parser) option" where
  "Parse fuel env p =
     (case init env p of
        (Some e, p1) \<Rightarrow> Some (Inl e, p1)
      | (None, p1) \<Rightarrow>
          (case indexObjects env p1 of
             (Some e, p2) \<Rightarrow> Some (Inl e, p2)
           | (None, p2) \<Rightarrow>
               (case sc_Checksum env (scanner p2) of
                  ((h, err), sc) \<Rightarrow>
                    (let p3 = p2\<lparr>checksum := h, scanner := sc\<rparr> in
                     case (if err = Some EOF then None else err) of
                       Some e \<Rightarrow> Some (Inl e, p3)
                     | None \<Rightarrow>
                         (case resolveDeltas fuel env p3 of
                            None \<Rightarrow> None
                          | Some (Some e, p4) \<Rightarrow> Some (Inl e, p4)
                          | Some (None, p4) \<Rightarrow>
                              (case onFooter (checksum p4) p4 of
                                 (Some e, p5) \<Rightarrow> Some (Inl e, p5)
                               | (None, p5) \<Rightarrow> Some (Inr (checksum p5), p5)))))))"

section \<open>storage/filesystem/object.go\<close>

subsection \<open>The object directory\<close>

text \<open>
  \<open>utils/ioutil.CheckClose\<close> (outside src/) closes and keeps an earlier error; only when
  there is none does the error of \<open>Close\<close> become the error of the function.
\<close>

definition CheckClose :: "error option \<Rightarrow> error option \<Rightarrow> error option" where
  "CheckClose cerr err = (case err of Some e \<Rightarrow> Some e | None \<Rightarrow> cerr)"

text \<open>
  \<open>plumbing.MemoryObject\<close> seen through the \<open>EncodedObject\<close> interface. Its reader is a
  \<open>bytes.Reader\<close> over the content: \<open>Read\<close> reports \<open>io.EOF\<close> when nothing is left to
  read and otherwise copies what fits. Its hash is computed from type and content once the
  content has the declared size. The hasher is a parameter of the storage functions.
\<close>

type_synonym hasher = "ObjectType \<Rightarrow> bytes \<Rightarrow> Hash"

definition readerOf :: "bytes \<Rightarrow> Reader" where
  "readerOf cont =
     \<lparr>rd_Read = (\<lambda>n. if cont = [] then Inl EOF
                      else Inr (take n cont @ replicate (n - length cont) 0)),
      rd_All = Inr cont,
      rd_Close = None\<rparr>"

definition asEncodedObject :: "hasher \<Rightarrow> MemoryObject \<Rightarrow> encodedObject" where
  "asEncodedObject H obj =
     \<lparr>eo_Hash = (if int (length (mo_cont obj)) = mo_sz obj then H (mo_t obj) (mo_cont obj)
                 else ZeroHash),
      eo_Type = mo_t obj,
      eo_Size = mo_sz obj,
      eo_Reader = Inr (readerOf (mo_cont obj))\<rparr>"

text \<open>
  Modelled from the spec: the object directory (\<open>dotgit.DotGit\<close>, \<open>objfile\<close>, \<open>idxfile\<close>
  and \<open>packfile.Packfile\<close> are outside src/). Each operation of the directory is given by
  its outcome.
  \<^item> A loose object file is \<open>typeName SP decimalSize NUL payload\<close>: opening a reader on it,
    reading its header, draining its payload and the two closes can each fail.
  \<^item> A pack index maps hashes to offsets and back.
  \<^item> A pack file answers \<open>GetByOffset\<close> and \<open>GetSizeByOffset\<close> against an index and the
    cache of delta bases, which both may update.
  \<^item> A new loose object is written to a temporary file and renamed into place by
    \<open>Close\<close>; \<open>ow_Name\<close> is the hash it is filed under.
  \<^item> The alternates file names further object directories.
\<close>

record LooseFile =
  lf_NewReader :: "error option"
  lf_Header :: "error + ObjectType \<times> int"
  lf_Payload :: "error + bytes"
  lf_ReaderClose :: "error option"
  lf_Close :: "error option"

record Index =
  FindOffset :: "Hash \<Rightarrow> error + int"
  FindHash :: "int \<Rightarrow> error + Hash"

record IdxFile =
  idx_Decode :: "error + Index"
  idx_Close :: "error option"

text \<open>
  Modelled from the spec: the cache of delta bases keyed by hash (the \<open>cache.Object\<close>
  interface), most recent entry first; \<open>Get\<close> makes the entry it finds the most recent.
\<close>

type_synonym ObjectCache = "(Hash \<times> encodedObject) list"

definition ObjectCache_Get :: "Hash \<Rightarrow> ObjectCache \<Rightarrow> encodedObject option \<times> ObjectCache" where
  "ObjectCache_Get k c =
     (case map_of c k of
        None \<Rightarrow> (None, c)
      | Some obj \<Rightarrow> (Some obj, (k, obj) # filter (\<lambda>(k', v). k' \<noteq> k) c))"

record PackFile =
  pk_GetByOffset :: "Index \<Rightarrow> ObjectCache option \<Rightarrow> int \<Rightarrow> (error + encodedObject) \<times> ObjectCache option"
  pk_GetSizeByOffset :: "Index \<Rightarrow> ObjectCache option \<Rightarrow> int \<Rightarrow> (error + int) \<times> ObjectCache option"
  pk_Close :: "error option"

record ObjectWriter =
  ow_WriteHeader :: "ObjectType \<Rightarrow> int \<Rightarrow> error option"
  ow_Write :: "bytes \<Rightarrow> error option"
  ow_Close :: "error option"
  ow_Name :: "ObjectType \<Rightarrow> int \<Rightarrow> bytes \<Rightarrow> Hash"

record Files =
  Object :: "Hash \<Rightarrow> error + LooseFile"
  ObjectPacks :: "error + Hash list"
  ObjectPackIdx :: "Hash \<Rightarrow> error + IdxFile"
  ObjectPack :: "Hash \<Rightarrow> error + PackFile"
  NewObject :: "error + ObjectWriter"

text \<open>
  A directory value carries the directories its alternates file names, and those carry
  theirs. The datatype is well-founded: a chain of alternates that leads back to a directory
  already on it, on which the source would recurse without end, has no value here.
\<close>

datatype DotGit = DotGit (files: Files) (Alternates: "error + DotGit list")

record ObjectStorage =
  KeepDescriptors :: bool
  deltaBaseCache :: "ObjectCache option"
  dir :: DotGit
  index :: "(Hash \<times> Index) list option"

subsection \<open>Operations\<close>

definition NewObjectStorage :: "DotGit \<Rightarrow> ObjectCache option \<Rightarrow> ObjectStorage" where
  "NewObjectStorage d c = \<lparr>KeepDescriptors = False, deltaBaseCache = c, dir = d, index = None\<rparr>"

definition loadIdxFile :: "Hash \<Rightarrow> ObjectStorage \<Rightarrow> error option \<times> ObjectStorage" where
  "loadIdxFile h s =
     (case ObjectPackIdx (files (dir s)) h of
        Inl e \<Rightarrow> (Some e, s)
      | Inr f \<Rightarrow>
          (case idx_Decode f of
             Inl e \<Rightarrow> (Some e, s)
           | Inr idxf \<Rightarrow>
               (case index s of
                  None \<Rightarrow> (Some (Panic ''assignment to entry in nil map''), s)
                | Some m \<Rightarrow> (CheckClose (idx_Close f) None, s\<lparr>index := Some (AList.update h idxf m)\<rparr>))))"

fun loadIdxFiles :: "Hash list \<Rightarrow> ObjectStorage \<Rightarrow> error option \<times> ObjectStorage" where
  "loadIdxFiles [] s = (None, s)"
| "loadIdxFiles (h # packs) s =
     (case loadIdxFile h s of
        (Some e, s1) \<Rightarrow> (Some e, s1)
      | (None, s1) \<Rightarrow> loadIdxFiles packs s1)"

text \<open>
  The \<open>index\<close> map is nil until \<open>requireIndex\<close> allocates it. A Go map is visited in no
  fixed order; the association list gives the order in which \<open>findObjectInPackfile\<close>
  happens to visit it.
\<close>

definition requireIndex :: "ObjectStorage \<Rightarrow> error option \<times> ObjectStorage" where
  "requireIndex s =
     (case index s of
        Some m \<Rightarrow> (None, s)
      | None \<Rightarrow>
          (case ObjectPacks (files (dir s)) of
             Inl e \<Rightarrow> (Some e, s\<lparr>index := Some []\<rparr>)
           | Inr packs \<Rightarrow> loadIdxFiles packs (s\<lparr>index := Some []\<rparr>)))"

fun findIn :: "(Hash \<times> Index) list \<Rightarrow> Hash \<Rightarrow> Hash \<times> Hash \<times> int" where
  "findIn [] h = (ZeroHash, ZeroHash, - 1)"
| "findIn ((packfile, idx) # rest) h =
     (case FindOffset idx h of
        Inr offset \<Rightarrow> (packfile, h, offset)
      | Inl e \<Rightarrow> findIn rest h)"

definition findObjectInPackfile :: "ObjectStorage \<Rightarrow> Hash \<Rightarrow> Hash \<times> Hash \<times> int" where
  "findObjectInPackfile s h = findIn (case index s of None \<Rightarrow> [] | Some m \<Rightarrow> m) h"

text \<open>
  \<open>SetEncodedObject\<close> returns a hash and an error side by side. The deferred closes run
  after the return values are set: the reader of the object first, the object writer last;
  the object is in the directory once the writer's \<open>Close\<close> has succeeded.
\<close>

definition fileObject :: "Hash \<Rightarrow> LooseFile \<Rightarrow> DotGit \<Rightarrow> DotGit" where
  "fileObject k f d =
     DotGit ((files d)\<lparr>Object := (Object (files d))(k := Inr f)\<rparr>) (Alternates d)"

definition looseFile :: "ObjectType \<Rightarrow> int \<Rightarrow> bytes \<Rightarrow> LooseFile" where
  "looseFile t n payload =
     \<lparr>lf_NewReader = None, lf_Header = Inr (t, n), lf_Payload = Inr payload,
      lf_ReaderClose = None, lf_Close = None\<rparr>"

definition SetEncodedObject :: "ObjectStorage \<Rightarrow> encodedObject \<Rightarrow> (Hash \<times> error option) \<times> ObjectStorage" where
  "SetEncodedObject s obj =
     (if eo_Type obj = OFSDeltaObject \<or> eo_Type obj = REFDeltaObject
      then ((ZeroHash, Some ErrInvalidType), s)
      else
        (case NewObject (files (dir s)) of
           Inl e \<Rightarrow> ((ZeroHash, Some e), s)
         | Inr ow \<Rightarrow>
             (case eo_Reader obj of
                Inl e \<Rightarrow> ((ZeroHash, Some e), s)
              | Inr rdr \<Rightarrow>
                  (case ow_WriteHeader ow (eo_Type obj) (eo_Size obj) of
                     Some e \<Rightarrow> ((ZeroHash, Some e), s)
                   | None \<Rightarrow>
                       (case rd_All rdr of
                          Inl e \<Rightarrow> ((ZeroHash, Some e), s)
                        | Inr payload \<Rightarrow>
                            (case ow_Write ow payload of
                               Some e \<Rightarrow> ((ZeroHash, Some e), s)
                             | None \<Rightarrow>
                                 ((eo_Hash obj, CheckClose (ow_Close ow) (CheckClose (rd_Close rdr) None)),
                                  if ow_Close ow = None
                                  then s\<lparr>dir := fileObject (ow_Name ow (eo_Type obj) (eo_Size obj) payload)
                                                   (looseFile (eo_Type obj) (eo_Size obj) payload) (dir s)\<rparr>
                                  else s)))))))"

definition HasEncodedObject :: "ObjectStorage \<Rightarrow> Hash \<Rightarrow> error option \<times> ObjectStorage" where
  "HasEncodedObject s h =
     (case Object (files (dir s)) h of
        Inr f \<Rightarrow> (CheckClose (lf_Close f) None, s)
      | Inl e \<Rightarrow>
          if \<not> IsNotExist e then (Some e, s)
          else
            (case requireIndex s of
               (Some e1, s1) \<Rightarrow> (Some e1, s1)
             | (None, s1) \<Rightarrow>
                 (case findObjectInPackfile s1 h of
                    (pack, hash, offset) \<Rightarrow>
                      if offset = - 1 then (Some ErrObjectNotFound, s1) else (None, s1))))"

definition encodedObjectSizeFromUnpacked :: "ObjectStorage \<Rightarrow> Hash \<Rightarrow> int \<times> error option" where
  "encodedObjectSizeFromUnpacked s h =
     (case Object (files (dir s)) h of
        Inl e \<Rightarrow> if IsNotExist e then (0, Some ErrObjectNotFound) else (0, Some e)
      | Inr f \<Rightarrow>
          (case lf_NewReader f of
             Some e \<Rightarrow> (0, Some e)
           | None \<Rightarrow>
               (case lf_Header f of
                  Inl e \<Rightarrow> (0, Some e)
                | Inr (t, n) \<Rightarrow> (n, CheckClose (lf_ReaderClose f) None))))"

text \<open>
  The part shared by \<open>encodedObjectSizeFromPackfile\<close> and \<open>decodeObjectAt\<close>: the hash at
  the offset is looked up in the index and, when it is there, in the cache of delta bases.
  Calling \<open>Get\<close> on a nil cache panics.
\<close>

definition cachedAt ::
  "Index \<Rightarrow> int \<Rightarrow> ObjectCache option \<Rightarrow> (error + encodedObject option) \<times> ObjectCache option" where
  "cachedAt idx offset c =
     (case FindHash idx offset of
        Inr hash \<Rightarrow>
          (case c of
             None \<Rightarrow> (Inl (Panic ''nil pointer dereference''), c)
           | Some entries \<Rightarrow>
               (case ObjectCache_Get hash entries of (r, entries') \<Rightarrow> (Inr r, Some entries')))
      | Inl e \<Rightarrow> if e \<noteq> ErrObjectNotFound then (Inl e, c) else (Inr None, c))"

definition encodedObjectSizeFromPackfile ::
  "ObjectStorage \<Rightarrow> Hash \<Rightarrow> (int \<times> error option) \<times> ObjectStorage" where
  "encodedObjectSizeFromPackfile s h =
     (case requireIndex s of
        (Some e, s1) \<Rightarrow> ((0, Some e), s1)
      | (None, s1) \<Rightarrow>
          (case findObjectInPackfile s1 h of
             (pack, hash, offset) \<Rightarrow>
               if offset = - 1 then ((0, Some ErrObjectNotFound), s1)
               else
                 (case ObjectPack (files (dir s1)) pack of
                    Inl e \<Rightarrow> ((0, Some e), s1)
                  | Inr f \<Rightarrow>
                      (case map_of (case index s1 of None \<Rightarrow> [] | Some m \<Rightarrow> m) pack of
                         None \<Rightarrow> ((0, Some (Panic ''nil pointer dereference'')), s1)
                       | Some idx \<Rightarrow>
                           (case cachedAt idx offset (deltaBaseCache s1) of
                              (Inl e, c) \<Rightarrow> ((0, Some e), s1\<lparr>deltaBaseCache := c\<rparr>)
                            | (Inr (Some obj), c) \<Rightarrow>
                                ((eo_Size obj, CheckClose (pk_Close f) None), s1\<lparr>deltaBaseCache := c\<rparr>)
                            | (Inr None, c) \<Rightarrow>
                                (case pk_GetSizeByOffset f idx c offset of
                                   (Inl e, c1) \<Rightarrow> ((0, Some e), s1\<lparr>deltaBaseCache := c1\<rparr>)
                                 | (Inr n, c1) \<Rightarrow>
                                     ((n, CheckClose (pk_Close f) None), s1\<lparr>deltaBaseCache := c1\<rparr>)))))))"

definition EncodedObjectSize :: "ObjectStorage \<Rightarrow> Hash \<Rightarrow> (int \<times> error option) \<times> ObjectStorage" where
  "EncodedObjectSize s h =
     (case encodedObjectSizeFromUnpacked s h of
        (n, Some e) \<Rightarrow>
          if e \<noteq> ErrObjectNotFound then ((0, Some e), s) else encodedObjectSizeFromPackfile s h
      | (n, None) \<Rightarrow> ((n, None), s))"

definition getFromUnpacked :: "hasher \<Rightarrow> ObjectStorage \<Rightarrow> Hash \<Rightarrow> error + encodedObject" where
  "getFromUnpacked H s h =
     (case Object (files (dir s)) h of
        Inl e \<Rightarrow> if IsNotExist e then Inl ErrObjectNotFound else Inl e
      | Inr f \<Rightarrow>
          (case lf_NewReader f of
             Some e \<Rightarrow> Inl e
           | None \<Rightarrow>
               (case lf_Header f of
                  Inl e \<Rightarrow> Inl e
                | Inr (t, n) \<Rightarrow>
                    (case lf_Payload f of
                       Inl e \<Rightarrow> Inl e
                     | Inr payload \<Rightarrow>
                         (case CheckClose (lf_Close f) (CheckClose (lf_ReaderClose f) None) of
                            Some e \<Rightarrow> Inl e
                          | None \<Rightarrow>
                              Inr (asEncodedObject H
                                     (if payload = [] then SetSize n (SetType t newMemoryObject)
                                      else Write payload (SetSize n (SetType t newMemoryObject)))))))))"

definition decodeObjectAt ::
  "ObjectStorage \<Rightarrow> PackFile \<Rightarrow> Index \<Rightarrow> int \<Rightarrow> (error + encodedObject) \<times> ObjectStorage" where
  "decodeObjectAt s f idx offset =
     (case cachedAt idx offset (deltaBaseCache s) of
        (Inl e, c) \<Rightarrow> (Inl e, s\<lparr>deltaBaseCache := c\<rparr>)
      | (Inr (Some obj), c) \<Rightarrow> (Inr obj, s\<lparr>deltaBaseCache := c\<rparr>)
      | (Inr None, c) \<Rightarrow>
          (case pk_GetByOffset f idx c offset of (r, c1) \<Rightarrow> (r, s\<lparr>deltaBaseCache := c1\<rparr>)))"

text \<open>\<open>getFromPackfile\<close> as \<open>EncodedObject\<close> calls it, with \<open>canBeDelta\<close> false.\<close>

definition getFromPackfile :: "ObjectStorage \<Rightarrow> Hash \<Rightarrow> (error + encodedObject) \<times> ObjectStorage" where
  "getFromPackfile s h =
     (case requireIndex s of
        (Some e, s1) \<Rightarrow> (Inl e, s1)
      | (None, s1) \<Rightarrow>
          (case findObjectInPackfile s1 h of
             (pack, hash, offset) \<Rightarrow>
               if offset = - 1 then (Inl ErrObjectNotFound, s1)
               else
                 (case ObjectPack (files (dir s1)) pack of
                    Inl e \<Rightarrow> (Inl e, s1)
                  | Inr f \<Rightarrow>
                      (case map_of (case index s1 of None \<Rightarrow> [] | Some m \<Rightarrow> m) pack of
                         None \<Rightarrow> (Inl (Panic ''nil pointer dereference''), s1)
                       | Some idx \<Rightarrow> decodeObjectAt s1 f idx offset))))"

definition isNotFound :: "error + 'a \<Rightarrow> bool" where
  "isNotFound r = (case r of Inl e \<Rightarrow> e = ErrObjectNotFound | Inr x \<Rightarrow> False)"

text \<open>
  \<open>EncodedObject\<close> looks in the loose objects, then in the packs, then in the alternates.
  \<open>alternatesLoop\<close> is its loop over the directories that \<open>Alternates()\<close> returned; each
  is opened as a storage of its own that shares the cache of delta bases. The loop passes
  over an alternate whose lookup returns an error. A panic inside the lookup of an alternate
  is no error value that the loop receives: it unwinds \<open>EncodedObject\<close>, so the loop ends
  with it (\<open>Inl\<close>) and \<open>EncodedObject\<close> hands it on.
\<close>

function EncodedObject ::
  "hasher \<Rightarrow> ObjectStorage \<Rightarrow> ObjectType \<Rightarrow> Hash \<Rightarrow> (error + encodedObject) \<times> ObjectStorage"
and alternatesLoop ::
  "hasher \<Rightarrow> DotGit list \<Rightarrow> ObjectCache option \<Rightarrow> ObjectType \<Rightarrow> Hash
     \<Rightarrow> (error + encodedObject option) \<times> ObjectCache option"
where
  "EncodedObject H s t h =
     (case (if isNotFound (getFromUnpacked H s h) then getFromPackfile s h
            else (getFromUnpacked H s h, s)) of
        (r, s1) \<Rightarrow>
          (case (if isNotFound r then
                   (case Alternates (dir s) of
                      Inl e \<Rightarrow> (Inr None, deltaBaseCache s1)
                    | Inr dotgits \<Rightarrow> alternatesLoop H dotgits (deltaBaseCache s1) t h)
                 else (Inr None, deltaBaseCache s1)) of
             (Inl panic, c) \<Rightarrow> (Inl panic, s1\<lparr>deltaBaseCache := c\<rparr>)
           | (Inr (Some enobj), c) \<Rightarrow> (Inr enobj, s1\<lparr>deltaBaseCache := c\<rparr>)
           | (Inr None, c) \<Rightarrow>
               (case r of
                  Inl e \<Rightarrow> (Inl e, s1\<lparr>deltaBaseCache := c\<rparr>)
                | Inr obj \<Rightarrow>
                    if AnyObject \<noteq> t \<and> eo_Type obj \<noteq> t
                    then (Inl ErrObjectNotFound, s1\<lparr>deltaBaseCache := c\<rparr>)
                    else (Inr obj, s1\<lparr>deltaBaseCache := c\<rparr>))))"
| "alternatesLoop H [] c t h = (Inr None, c)"
| "alternatesLoop H (dg # rest) c t h =
     (case EncodedObject H (NewObjectStorage dg c) t h of
        (Inl enerr, s') \<Rightarrow>
          if isPanic enerr then (Inl enerr, deltaBaseCache s')
          else alternatesLoop H rest (deltaBaseCache s') t h
      | (Inr enobj, s') \<Rightarrow> (Inr (Some enobj), deltaBaseCache s'))"
  by pat_completeness auto
termination
  apply (relation "measure (\<lambda>x. case x of Inl (H, s, t, h) \<Rightarrow> 2 * size (dir s)
                                   | Inr (H, dgs, c, t, h) \<Rightarrow> 2 * size_list size dgs + 1)")
    apply simp
   apply (case_tac "dir s"; simp)
  apply (auto simp: NewObjectStorage_def)
  done

declare EncodedObject.simps [simp del]

text \<open>The payload of an encoded object: what its reader yields when drained, if it can be.\<close>

definition payload :: "encodedObject \<Rightarrow> bytes option" where
  "payload obj =
     (case eo_Reader obj of
        Inl e \<Rightarrow> None
      | Inr r \<Rightarrow> (case rd_All r of Inl e \<Rightarrow> None | Inr b \<Rightarrow> Some b))"

section \<open>Vocabulary of the parser theorems\<close>

text \<open>
  \<open>broadcast n ev\<close> are the calls that deliver \<open>ev\<close> to \<open>n\<close> observers without an error;
  \<open>all_ok\<close> says that no call of a list returned an error, \<open>lastError\<close> is what the last
  call returned. \<open>aborts r cs cs'\<close> relates the calls before and after a step that returned
  \<open>r\<close>: calls were only added, none but the last added one returned an error, and an error
  of that last call is \<open>r\<close>. \<open>inflated x\<close> is the pair of callbacks for one object.
  \<open>links\<close> are the fields of a node that the resolve pass never writes; \<open>unchanged\<close> and
  \<open>kept\<close> are the frames of \<open>get\<close> and of an iteration of \<open>resolveDeltas\<close>.
\<close>

definition broadcast :: "nat \<Rightarrow> event \<Rightarrow> call list" where
  "broadcast n ev = map (\<lambda>j. (j, ev, None)) [0..<n]"

definition all_ok :: "call list \<Rightarrow> bool" where
  "all_ok cs = list_all (\<lambda>c. snd (snd c) = None) cs"

definition links :: "objectInfo \<Rightarrow> int \<times> nat list \<times> ObjectType \<times> nat option \<times> bool \<times> 32 word" where
  "links n = (Offset n, Children n, DiskType n, Parent n, ExternalRef n, Crc32 n)"

definition unchanged :: "('sc, 'st) Parser \<Rightarrow> ('sc, 'st) Parser \<Rightarrow> bool" where
  "unchanged p p' =
     (calls p' = calls p \<and> ob p' = ob p \<and> oi p' = oi p \<and> count p' = count p
      \<and> checksum p' = checksum p \<and> deltas p' = deltas p
      \<and> length (heap p') = length (heap p)
      \<and> (\<lambda>a. links (heap p' ! a)) = (\<lambda>a. links (heap p ! a)))"

record inflatedObject =
  io_Type :: ObjectType
  io_Size :: int
  io_Pos :: int
  io_Hash :: Hash
  io_Crc :: "32 word"
  io_Content :: bytes

definition inflated :: "inflatedObject \<Rightarrow> event list" where
  "inflated x =
     [OnInflatedObjectHeader (io_Type x) (io_Size x) (io_Pos x),
      OnInflatedObjectContent (io_Hash x) (io_Pos x) (io_Crc x) (io_Content x)]"

definition lastError :: "call list \<Rightarrow> error option" where
  "lastError cs = (if cs = [] then None else snd (snd (last cs)))"

definition aborts :: "error option \<Rightarrow> call list \<Rightarrow> call list \<Rightarrow> bool" where
  "aborts r cs cs' =
     (\<exists>new. cs' = cs @ new \<and> all_ok (butlast new) \<and> (lastError new = None \<or> lastError new = r))"

definition kept :: "('sc, 'st) Parser \<Rightarrow> ('sc, 'st) Parser \<Rightarrow> bool" where
  "kept p p' =
     (ob p' = ob p \<and> oi p' = oi p \<and> count p' = count p \<and> checksum p' = checksum p
      \<and> length (heap p') = length (heap p)
      \<and> (\<lambda>a. links (heap p' ! a)) = (\<lambda>a. links (heap p ! a)))"

definition err_of :: "error + 'a \<Rightarrow> error option" where
  "err_of r = (case r of Inl e \<Rightarrow> Some e | Inr x \<Rightarrow> None)"

section \<open>Worked scenarios: fixtures\<close>

text \<open>
  The canonical framing of an object: type name, space, decimal length, NUL, payload. The
  scenarios need hash values they can compute; \<open>sampleHash\<close> stands in for SHA-1 there, a
  polynomial checksum of the canonical framing.
\<close>

fun typeName :: "ObjectType \<Rightarrow> bytes" where
  "typeName CommitObject = map of_char ''commit''"
| "typeName TreeObject = map of_char ''tree''"
| "typeName BlobObject = map of_char ''blob''"
| "typeName TagObject = map of_char ''tag''"
| "typeName OFSDeltaObject = map of_char ''ofs-delta''"
| "typeName REFDeltaObject = map of_char ''ref-delta''"
| "typeName AnyObject = map of_char ''any''"
| "typeName InvalidObject = map of_char ''invalid''"

function decimal :: "nat \<Rightarrow> bytes" where
  "decimal n = (if n < 10 then [of_nat (48 + n)] else decimal (n div 10) @ [of_nat (48 + n mod 10)])"
  by pat_completeness auto
termination
  by (relation "measure id") auto

definition framing :: "ObjectType \<Rightarrow> bytes \<Rightarrow> bytes" where
  "framing t content = typeName t @ [32] @ decimal (length content) @ [0] @ content"

definition sampleHash :: hasher where
  "sampleHash t content = foldl (\<lambda>h b. h * 257 + ucast b + 1) 0 (framing t content)"

text \<open>
  An object directory without objects, packs or alternates, whose object writer accepts
  everything and files an object under the hash of its canonical framing.
\<close>

definition sampleWriter :: ObjectWriter where
  "sampleWriter =
     \<lparr>ow_WriteHeader = (\<lambda>t n. None), ow_Write = (\<lambda>b. None), ow_Close = None,
      ow_Name = (\<lambda>t n content. sampleHash t content)\<rparr>"

definition noFiles :: Files where
  "noFiles =
     \<lparr>Object = (\<lambda>h. Inl ErrNotExist), ObjectPacks = Inr [],
      ObjectPackIdx = (\<lambda>h. Inl ErrNotExist), ObjectPack = (\<lambda>h. Inl ErrNotExist),
      NewObject = Inr sampleWriter\<rparr>"

definition hello :: bytes where
  "hello = [104, 101, 108, 108, 111, 10]"

definition helloHash :: Hash where
  "helloHash = sampleHash BlobObject hello"

text \<open>
  Three directories: one that holds the blob \<open>hello\<close> as a loose object, one whose loose
  object lookup fails with an error other than "does not exist", and one that has nothing
  itself but names those two, the failing one first, as its alternates.
\<close>

definition helloDir :: DotGit where
  "helloDir =
     DotGit (noFiles\<lparr>Object := (Object noFiles)(helloHash := Inr (looseFile BlobObject 6 hello))\<rparr>)
            (Inr [])"

definition brokenDir :: DotGit where
  "brokenDir =
     DotGit (noFiles\<lparr>Object := (\<lambda>h. Inl (Errorf ''permission denied''))\<rparr>) (Inr [])"

definition sharedDir :: DotGit where
  "sharedDir = DotGit noFiles (Inr [brokenDir, helloDir])"

definition helloObject :: encodedObject where
  "helloObject = asEncodedObject sampleHash (Write hello (SetType BlobObject (SetSize 6 newMemoryObject)))"

definition emptyStorage :: ObjectStorage where
  "emptyStorage = NewObjectStorage (DotGit noFiles (Inr [])) None"

definition setAlternates :: "error + DotGit list \<Rightarrow> ObjectStorage \<Rightarrow> ObjectStorage" where
  "setAlternates alts s = s\<lparr>dir := DotGit (files (dir s)) alts\<rparr>"

definition sharedStorage :: ObjectStorage where
  "sharedStorage = NewObjectStorage sharedDir None"

definition brokenOnlyStorage :: ObjectStorage where
  "brokenOnlyStorage = NewObjectStorage (DotGit noFiles (Inr [brokenDir])) None"

definition helloIndex :: Index where
  "helloIndex =
     \<lparr>FindOffset = (\<lambda>h. if h = helloHash then Inr 12 else Inl ErrObjectNotFound),
      FindHash = (\<lambda>off. if off = 12 then Inr helloHash else Inl ErrObjectNotFound)\<rparr>"

definition helloPack :: PackFile where
  "helloPack =
     \<lparr>pk_GetByOffset = (\<lambda>idx c off. if off = 12 then (Inr helloObject, c) else (Inl ErrObjectNotFound, c)),
      pk_GetSizeByOffset = (\<lambda>idx c off. if off = 12 then (Inr 6, c) else (Inl ErrObjectNotFound, c)),
      pk_Close = None\<rparr>"

definition packedDir :: DotGit where
  "packedDir =
     DotGit (noFiles\<lparr>ObjectPacks := Inr [1],
                     ObjectPackIdx := (\<lambda>k. if k = 1 then Inr \<lparr>idx_Decode = Inr helloIndex, idx_Close = None\<rparr>
                                           else Inl ErrNotExist),
                     ObjectPack := (\<lambda>k. if k = 1 then Inr helloPack else Inl ErrNotExist)\<rparr>)
            (Inr [])"

definition packedStorage :: ObjectStorage where
  "packedStorage = NewObjectStorage packedDir (Some [])"

definition helloStorage :: ObjectStorage where
  "helloStorage = NewObjectStorage helloDir None"

text \<open>
  Modelled from the spec: the scanner (scanner.go is outside src/), at the granularity of
  pack entries. A pack is its header, its entries (object header, inflated payload, CRC) and
  its trailer; the cursor stands before an entry. \<open>SeekFromStart\<close> is refused on a source
  that is not seekable and otherwise moves the cursor to the entry at the offset.
\<close>

record PackEntry =
  pe_Header :: ObjectHeader
  pe_Content :: bytes
  pe_Crc32 :: "32 word"

record Scanner =
  IsSeekable :: bool
  Version :: "32 word"
  ObjectCount :: "32 word"
  Entries :: "PackEntry list"
  Trailer :: Hash
  cursor :: nat

definition Scanner_Header :: "Scanner \<Rightarrow> (error + 32 word \<times> 32 word) \<times> Scanner" where
  "Scanner_Header s = (Inr (Version s, ObjectCount s), s\<lparr>cursor := 0\<rparr>)"

definition Scanner_NextObjectHeader :: "Scanner \<Rightarrow> (error + ObjectHeader) \<times> Scanner" where
  "Scanner_NextObjectHeader s =
     (if cursor s < length (Entries s) then (Inr (pe_Header (Entries s ! cursor s)), s)
      else (Inl EOF, s))"

definition Scanner_NextObject :: "Scanner \<Rightarrow> (error + bytes \<times> 32 word) \<times> Scanner" where
  "Scanner_NextObject s =
     (if cursor s < length (Entries s)
      then (Inr (pe_Content (Entries s ! cursor s), pe_Crc32 (Entries s ! cursor s)),
            s\<lparr>cursor := cursor s + 1\<rparr>)
      else (Inl EOF, s))"

definition Scanner_SeekFromStart :: "Scanner \<Rightarrow> int \<Rightarrow> (error + int) \<times> Scanner" where
  "Scanner_SeekFromStart s offset =
     (if \<not> IsSeekable s then (Inl (Errorf ''not seek support''), s)
      else (Inr offset,
            s\<lparr>cursor := length (takeWhile (\<lambda>e. oh_Offset (pe_Header e) \<noteq> offset) (Entries s))\<rparr>))"

definition Scanner_Checksum :: "Scanner \<Rightarrow> (Hash \<times> error option) \<times> Scanner" where
  "Scanner_Checksum s = ((Trailer s, None), s)"

text \<open>
  Modelled from the spec: the delta applier \<open>PatchDelta\<close> (outside src/). Two
  variable-length integers give the length of the base and of the result; then copy
  operations (top bit set: bits 0 to 3 select the bytes of the offset, bits 4 to 6 the bytes
  of the size, size 0 standing for \<open>0x10000\<close>) and insert operations (the low 7 bits count
  the literal bytes that follow); operation 0 is reserved.
\<close>

fun decodeLEB128 :: "bytes \<Rightarrow> (nat \<times> bytes) option" where
  "decodeLEB128 [] = None"
| "decodeLEB128 (b # bs) =
     (if bit b 7 then
        (case decodeLEB128 bs of
           None \<Rightarrow> None
         | Some (n, rest) \<Rightarrow> Some (unat (take_bit 7 b) + 128 * n, rest))
      else Some (unat b, bs))"

fun readSelected :: "8 word \<Rightarrow> nat list \<Rightarrow> nat \<Rightarrow> bytes \<Rightarrow> (nat \<times> bytes) option" where
  "readSelected cmd [] k bs = Some (0, bs)"
| "readSelected cmd (i # rest) k bs =
     (if bit cmd i then
        (case bs of
           [] \<Rightarrow> None
         | b # bs' \<Rightarrow>
             (case readSelected cmd rest (k + 8) bs' of
                None \<Rightarrow> None
              | Some (v, bs'') \<Rightarrow> Some (unat b * 2 ^ k + v, bs'')))
      else readSelected cmd rest (k + 8) bs)"

lemma readSelected_length:
  "readSelected cmd sel k bs = Some (v, bs') \<Longrightarrow> length bs' \<le> length bs"
  by (induction cmd sel k bs arbitrary: v bs' rule: readSelected.induct)
     (fastforce split: if_splits list.splits option.splits)+

function patchOps :: "bytes \<Rightarrow> bytes \<Rightarrow> bytes \<Rightarrow> error + bytes" where
  "patchOps base [] out = Inr out"
| "patchOps base (cmd # bs) out =
     (if bit cmd 7 then
        (case readSelected cmd [0, 1, 2, 3] 0 bs of
           None \<Rightarrow> Inl (Errorf ''delta corruption'')
         | Some (offset, bs1) \<Rightarrow>
             (case readSelected cmd [4, 5, 6] 0 bs1 of
                None \<Rightarrow> Inl (Errorf ''delta corruption'')
              | Some (n, bs2) \<Rightarrow>
                  (let sz = (if n = 0 then 65536 else n) in
                   if offset + sz > length base then Inl (Errorf ''delta corruption'')
                   else patchOps base bs2 (out @ take sz (drop offset base)))))
      else if cmd \<noteq> 0 then
        (if unat cmd > length bs then Inl (Errorf ''delta corruption'')
         else patchOps base (drop (unat cmd) bs) (out @ take (unat cmd) bs))
      else Inl (Errorf ''delta corruption''))"
  by pat_completeness auto
termination
proof (relation "measure (\<lambda>(base, delta, out). length delta)")
  show "wf (measure (\<lambda>(base, delta, out). length delta))"
    by simp
next
  fix base :: bytes and cmd bs out x2 offset bs1 y2 n bs2 sz
  assume "readSelected cmd [0, 1, 2, 3] 0 bs = Some x2" and "(offset, bs1) = x2"
    and "readSelected cmd [4, 5, 6] 0 bs1 = Some y2" and "(n, bs2) = y2"
  then have "length bs1 \<le> length bs" and "length bs2 \<le> length bs1"
    using readSelected_length [of cmd "[0, 1, 2, 3]" 0 bs offset bs1]
      readSelected_length [of cmd "[4, 5, 6]" 0 bs1 n bs2]
    by simp_all
  then show "((base, bs2, out @ take sz (drop offset base)), (base, cmd # bs, out))
               \<in> measure (\<lambda>(base, delta, out). length delta)"
    by simp
next
  fix base :: bytes and cmd :: "8 word" and bs out :: bytes
  assume "cmd \<noteq> 0" and "\<not> length bs < unat cmd"
  then have "0 < unat cmd"
    by (simp add: unat_gt_0)
  then show "((base, drop (unat cmd) bs, out @ take (unat cmd) bs), (base, cmd # bs, out))
               \<in> measure (\<lambda>(base, delta, out). length delta)"
    by simp
qed

definition patchDelta :: "bytes \<Rightarrow> bytes \<Rightarrow> error + bytes" where
  "patchDelta base delta =
     (case decodeLEB128 delta of
        None \<Rightarrow> Inl (Errorf ''delta corruption'')
      | Some (srcSz, d1) \<Rightarrow>
          if srcSz \<noteq> length base then Inl (Errorf ''delta corruption'')
          else
            (case decodeLEB128 d1 of
               None \<Rightarrow> Inl (Errorf ''delta corruption'')
             | Some (targetSz, d2) \<Rightarrow>
                 (case patchOps base d2 [] of
                    Inl e \<Rightarrow> Inl e
                  | Inr out \<Rightarrow>
                      if length out \<noteq> targetSz then Inl (Errorf ''delta corruption'')
                      else Inr out)))"

text \<open>
  The collaborators used in the scenarios: the scanner above, the filesystem object storage
  of object.go behind the storer interface, \<open>sampleHash\<close> as hasher, the delta applier
  above.
\<close>

definition sampleEnv :: "(Scanner, ObjectStorage) env" where
  "sampleEnv =
     \<lparr>sc_IsSeekable = IsSeekable,
      sc_Header = Scanner_Header,
      sc_NextObjectHeader = Scanner_NextObjectHeader,
      sc_NextObject = Scanner_NextObject,
      sc_SeekFromStart = Scanner_SeekFromStart,
      sc_Checksum = Scanner_Checksum,
      st_EncodedObject = EncodedObject sampleHash,
      st_SetEncodedObject = (\<lambda>s obj. SetEncodedObject s (asEncodedObject sampleHash obj)),
      hasher_Write = (\<lambda>t b. None),
      hasher_Sum = sampleHash,
      PatchDelta = patchDelta,
      DefaultMaxSize = 100663296\<rparr>"

text \<open>
  The packs of the scenarios: the blob \<open>hello\<close> at offset 12, a delta at offset 27 that
  copies the six bytes of its base and appends \<open>" world\n"\<close>, stored as an OFS delta against
  offset 12 or as a REF delta against the hash of \<open>hello\<close>.
\<close>

definition worldDelta :: bytes where
  "worldDelta = [6, 13, 144, 6, 7, 32, 119, 111, 114, 108, 100, 10]"

definition helloWorld :: bytes where
  "helloWorld = [104, 101, 108, 108, 111, 10, 32, 119, 111, 114, 108, 100, 10]"

definition helloEntry :: PackEntry where
  "helloEntry =
     \<lparr>pe_Header = \<lparr>oh_Type = BlobObject, oh_Offset = 12, oh_Length = 6, oh_Reference = ZeroHash,
                   oh_OffsetReference = 0\<rparr>,
      pe_Content = hello, pe_Crc32 = 11\<rparr>"

definition ofsEntry :: PackEntry where
  "ofsEntry =
     \<lparr>pe_Header = \<lparr>oh_Type = OFSDeltaObject, oh_Offset = 27, oh_Length = 12, oh_Reference = ZeroHash,
                   oh_OffsetReference = 12\<rparr>,
      pe_Content = worldDelta, pe_Crc32 = 22\<rparr>"

definition refEntry :: PackEntry where
  "refEntry =
     \<lparr>pe_Header = \<lparr>oh_Type = REFDeltaObject, oh_Offset = 12, oh_Length = 12, oh_Reference = helloHash,
                   oh_OffsetReference = 0\<rparr>,
      pe_Content = worldDelta, pe_Crc32 = 33\<rparr>"

definition packOf :: "bool \<Rightarrow> PackEntry list \<Rightarrow> Scanner" where
  "packOf seekable es =
     \<lparr>IsSeekable = seekable, Version = 2, ObjectCount = of_nat (length es), Entries = es,
      Trailer = 99, cursor = 0\<rparr>"

definition accepting :: Observer where
  "accepting es = None"

definition worldHash :: Hash where
  "worldHash = sampleHash BlobObject helloWorld"

definition s4Parser :: "(Scanner, ObjectStorage) Parser" where
  "s4Parser =
     \<lparr>storage = Some emptyStorage, scanner = packOf False [helloEntry, ofsEntry], count = 0, oi = [],
      oiByHash = Map.empty, oiByOffset = Map.empty, checksum = ZeroHash,
      cache = NewBufferLRU 100663296, deltas = Some Map.empty, ob = [accepting, accepting],
      heap = [], calls = []\<rparr>"

definition rejecting :: Observer where
  "rejecting es = Some (Errorf ''observer failed'')"

definition s4Done :: "(Scanner, ObjectStorage) Parser" where
  "s4Done =
     \<lparr>storage =
        Some \<lparr>KeepDescriptors = False, deltaBaseCache = None,
               dir = DotGit (noFiles\<lparr>Object := (Object noFiles)
                               (helloHash := Inr (looseFile BlobObject 6 hello),
                                worldHash := Inr (looseFile BlobObject 13 helloWorld))\<rparr>)
                            (Inr []),
               index = None\<rparr>,
      scanner = (packOf False [helloEntry, ofsEntry])\<lparr>cursor := 2\<rparr>,
      count = 2, oi = [Some 0, Some 1],
      oiByHash = [helloHash \<mapsto> 0], oiByOffset = [12 \<mapsto> 0, 27 \<mapsto> 1],
      checksum = 99, cache = NewBufferLRU 100663296,
      deltas = Some [27 \<mapsto> worldDelta], ob = [accepting, accepting],
      heap =
        [\<lparr>Offset = 12, Length = 6, Type = BlobObject, DiskType = BlobObject, ExternalRef = False,
          Crc32 = 11, Parent = None, Children = [1], SHA1 = helloHash\<rparr>,
         \<lparr>Offset = 27, Length = 13, Type = BlobObject, DiskType = OFSDeltaObject, ExternalRef = False,
          Crc32 = 22, Parent = Some 0, Children = [], SHA1 = worldHash\<rparr>],
      calls =
        concat (map (broadcast 2)
          [OnHeader 2,
           OnInflatedObjectHeader BlobObject 6 12, OnInflatedObjectContent helloHash 12 11 hello,
           OnInflatedObjectHeader BlobObject 13 27, OnInflatedObjectContent worldHash 27 22 helloWorld,
           OnFooter 99])\<rparr>"

definition rejectedParser :: "(Scanner, ObjectStorage) Parser" where
  "rejectedParser = s4Parser\<lparr>ob := [accepting, rejecting]\<rparr>"

definition rejectedDone :: "(Scanner, ObjectStorage) Parser" where
  "rejectedDone =
     rejectedParser\<lparr>calls := [(0, OnHeader 2, None), (1, OnHeader 2, Some (Errorf ''observer failed''))]\<rparr>"

text \<open>
  The state in which the loop of \<open>indexObjects\<close> enters iteration \<open>j\<close>: the state after
  the iterations before it, when these all ran and none returned an error.
\<close>

fun indexPrefix :: "('sc, 'st) env \<Rightarrow> nat \<Rightarrow> ('sc, 'st) Parser \<Rightarrow> ('sc, 'st) Parser option" where
  "indexPrefix env 0 p = Some p"
| "indexPrefix env (Suc j) p =
     (case indexPrefix env j p of
        None \<Rightarrow> None
      | Some q \<Rightarrow>
          if j < unat (count q) then
            (case indexObject env j q of (None, q') \<Rightarrow> Some q' | (Some e, q') \<Rightarrow> None)
          else None)"

definition pointersValid :: "('sc, 'st) Parser \<Rightarrow> bool" where
  "pointersValid p = (\<forall>k a. oiByOffset p k = Some a \<longrightarrow> a < length (heap p))"

text \<open>
  A pack whose only entry is an OFS delta: the base at offset 12 is not in the pack.
\<close>

definition orphanParser :: "(Scanner, ObjectStorage) Parser" where
  "orphanParser = s4Parser\<lparr>scanner := packOf True [ofsEntry], ob := [accepting]\<rparr>"

definition s4Indexed1 :: "(Scanner, ObjectStorage) Parser" where
  "s4Indexed1 =
     snd (indexObject sampleEnv 0
            (s4Parser\<lparr>count := 2, oi := [None, None], calls := broadcast 2 (OnHeader 2)\<rparr>))"

text \<open>
  Storages on which the size that \<open>EncodedObjectSize\<close> reads and the payload that
  \<open>EncodedObject\<close> returns come apart: a directory with one pack, of which the pack file is
  given; a pack whose \<open>Close\<close> fails; a pack that reports a size of seven bytes for the blob
  of six; a cache of delta bases whose entry for the blob declares seven bytes; a loose file
  whose header declares seven bytes. And one on which they agree through the cache:
  \<open>cachedStorage\<close> has the blob in a pack and in the cache of delta bases.
\<close>

definition packDirOf :: "PackFile \<Rightarrow> DotGit" where
  "packDirOf pf =
     DotGit (noFiles\<lparr>ObjectPacks := Inr [1],
                     ObjectPackIdx := (\<lambda>k. if k = 1 then Inr \<lparr>idx_Decode = Inr helloIndex, idx_Close = None\<rparr>
                                           else Inl ErrNotExist),
                     ObjectPack := (\<lambda>k. if k = 1 then Inr pf else Inl ErrNotExist)\<rparr>)
            (Inr [])"

definition closeFailStorage :: ObjectStorage where
  "closeFailStorage =
     NewObjectStorage (packDirOf (helloPack\<lparr>pk_Close := Some (Errorf ''close failed'')\<rparr>)) (Some [])"

definition oddPackStorage :: ObjectStorage where
  "oddPackStorage =
     NewObjectStorage (packDirOf (helloPack\<lparr>pk_GetSizeByOffset := (\<lambda>idx c off. (Inr 7, c))\<rparr>)) (Some [])"

definition oddCacheStorage :: ObjectStorage where
  "oddCacheStorage = NewObjectStorage (packDirOf helloPack) (Some [(helloHash, helloObject\<lparr>eo_Size := 7\<rparr>)])"

definition oddLooseStorage :: ObjectStorage where
  "oddLooseStorage =
     NewObjectStorage
       (DotGit (noFiles\<lparr>Object := (Object noFiles)(helloHash := Inr (looseFile BlobObject 7 hello))\<rparr>)
               (Inr []))
       None"

definition cachedStorage :: ObjectStorage where
  "cachedStorage = NewObjectStorage (packDirOf helloPack) (Some [(helloHash, helloObject)])"

section \<open>Theorems: reference update commands\<close>

lemma actions_distinct:
  "CreateAction \<noteq> UpdateAction" "CreateAction \<noteq> DeleteAction" "CreateAction \<noteq> InvalidAction"
  "UpdateAction \<noteq> DeleteAction" "UpdateAction \<noteq> InvalidAction" "DeleteAction \<noteq> InvalidAction"
  by (simp_all add: CreateAction_def UpdateAction_def DeleteAction_def InvalidAction_def)

text \<open>
  Claim C10. The action of a command is decided by which of its two hashes are zero:
  invalid when both are, create when only the old one is, delete when only the new one is,
  update when neither is; and \<open>validate\<close> reports an error exactly for the invalid action.
\<close>

theorem C10_action_by_zero_hashes:
  "(Action c = InvalidAction) = (Old c = ZeroHash \<and> New c = ZeroHash)
   \<and> (Action c = CreateAction) = (Old c = ZeroHash \<and> New c \<noteq> ZeroHash)
   \<and> (Action c = DeleteAction) = (Old c \<noteq> ZeroHash \<and> New c = ZeroHash)
   \<and> (Action c = UpdateAction) = (Old c \<noteq> ZeroHash \<and> New c \<noteq> ZeroHash)
   \<and> (validate c \<noteq> None) = (Action c = InvalidAction)"
  using actions_distinct by (auto simp: Action_def validate_def)

section \<open>Theorems: object storage\<close>

text \<open>
  Claim C8. \<open>SetEncodedObject\<close> on an object of type \<open>OFSDelta\<close> or \<open>REFDelta\<close> returns
  the zero hash and the invalid-type error and leaves the storage, so also the object
  directory, as it was. On an object of any other type, when the directory hands out a
  writer and every read, write and close succeeds, it returns the hash of the object and the
  directory holds a loose object with the object's type and size as header and the object's
  payload.
\<close>

theorem C8_SetEncodedObject:
  "(eo_Type obj = OFSDeltaObject \<or> eo_Type obj = REFDeltaObject
      \<longrightarrow> SetEncodedObject s obj = ((ZeroHash, Some ErrInvalidType), s))
   \<and> (eo_Type obj \<noteq> OFSDeltaObject \<and> eo_Type obj \<noteq> REFDeltaObject
        \<and> NewObject (files (dir s)) = Inr ow \<and> eo_Reader obj = Inr rdr
        \<and> ow_WriteHeader ow (eo_Type obj) (eo_Size obj) = None
        \<and> rd_All rdr = Inr content \<and> ow_Write ow content = None
        \<and> rd_Close rdr = None \<and> ow_Close ow = None
      \<longrightarrow> fst (SetEncodedObject s obj) = (eo_Hash obj, None)
          \<and> Object (files (dir (snd (SetEncodedObject s obj))))
                (ow_Name ow (eo_Type obj) (eo_Size obj) content)
              = Inr (looseFile (eo_Type obj) (eo_Size obj) content))"
  by (auto simp: SetEncodedObject_def CheckClose_def fileObject_def)

text \<open>
  The theorem for claim C8 at an empty storage: an object marked as a REF delta is refused, the
  blob \<open>hello\<close> is written.
\<close>

theorem C8_witness:
  "SetEncodedObject emptyStorage (helloObject\<lparr>eo_Type := REFDeltaObject\<rparr>)
     = ((ZeroHash, Some ErrInvalidType), emptyStorage)
   \<and> fst (SetEncodedObject emptyStorage helloObject) = (helloHash, None)
   \<and> Object (files (dir (snd (SetEncodedObject emptyStorage helloObject)))) helloHash
       = Inr (looseFile BlobObject 6 hello)"
  using C8_SetEncodedObject [of "helloObject\<lparr>eo_Type := REFDeltaObject\<rparr>" emptyStorage]
        C8_SetEncodedObject [of helloObject emptyStorage sampleWriter "readerOf hello" hello]
  by (simp add: helloObject_def emptyStorage_def NewObjectStorage_def noFiles_def sampleWriter_def
        asEncodedObject_def Write_def SetType_def SetSize_def newMemoryObject_def readerOf_def
        hello_def helloHash_def)

lemma loadIdxFile_alts:
  "loadIdxFile k (setAlternates alts s) = (fst (loadIdxFile k s), setAlternates alts (snd (loadIdxFile k s)))"
  by (simp add: loadIdxFile_def setAlternates_def split: sum.splits option.splits)

lemma loadIdxFiles_alts:
  "loadIdxFiles ks (setAlternates alts s) = (fst (loadIdxFiles ks s), setAlternates alts (snd (loadIdxFiles ks s)))"
proof (induction ks arbitrary: s)
  case Nil
  show ?case by simp
next
  case (Cons k ks)
  show ?case
    by (cases "loadIdxFile k s") (simp add: loadIdxFile_alts Cons.IH split: option.splits)
qed

lemma requireIndex_alts:
  "requireIndex (setAlternates alts s) = (fst (requireIndex s), setAlternates alts (snd (requireIndex s)))"
proof -
  have eq: "(setAlternates alts s)\<lparr>index := Some []\<rparr> = setAlternates alts (s\<lparr>index := Some []\<rparr>)"
    by (simp add: setAlternates_def)
  show ?thesis
    unfolding requireIndex_def
    apply (simp only: eq loadIdxFiles_alts)
    apply (simp add: setAlternates_def split: option.splits sum.splits)
    done
qed

lemma HasEncodedObject_alts:
  "fst (HasEncodedObject (setAlternates alts s) h) = fst (HasEncodedObject s h)"
proof -
  have f: "findObjectInPackfile (setAlternates alts s') h = findObjectInPackfile s' h" for s'
    by (simp add: findObjectInPackfile_def setAlternates_def)
  have o: "Object (files (dir (setAlternates alts s))) = Object (files (dir s))"
    by (simp add: setAlternates_def)
  show ?thesis
    unfolding HasEncodedObject_def o
    by (cases "requireIndex s")
       (simp add: requireIndex_alts f split: sum.splits option.splits prod.splits)
qed

lemma getFromPackfile_absent:
  "requireIndex s = (None, s1) \<Longrightarrow> findObjectInPackfile s1 h = (pk, hh, - 1)
     \<Longrightarrow> getFromPackfile s h = (Inl ErrObjectNotFound, s1)"
  by (simp add: getFromPackfile_def)

lemma getFromUnpacked_absent:
  "Object (files (dir s)) h = Inl e \<Longrightarrow> IsNotExist e \<Longrightarrow> getFromUnpacked H s h = Inl ErrObjectNotFound"
  by (simp add: getFromUnpacked_def)

lemma isPanic_iff: "isPanic e = (\<exists>m. e = Panic m)"
  by (cases e) (simp_all add: isPanic_def)

lemma isPanic_simps [simp]:
  "isPanic (Panic m)" "\<not> isPanic ErrObjectNotFound" "\<not> isPanic (Errorf x)" "\<not> isPanic ErrNotExist"
  by (simp_all add: isPanic_def)

lemma alternatesLoop_finds:
  "\<forall>a \<in> set pre. \<forall>c m. fst (EncodedObject H (NewObjectStorage a c) t h) \<noteq> Inl (Panic m)
     \<Longrightarrow> \<forall>c. \<exists>obj s'. EncodedObject H (NewObjectStorage dg c) t h = (Inr obj, s')
     \<Longrightarrow> \<exists>obj c'. alternatesLoop H (pre @ dg # post) c t h = (Inr (Some obj), c')"
proof (induction pre arbitrary: c)
  case Nil
  from Nil(2) obtain obj s' where "EncodedObject H (NewObjectStorage dg c) t h = (Inr obj, s')"
    by blast
  then show ?case by simp
next
  case (Cons a pre)
  show ?case
  proof (cases "EncodedObject H (NewObjectStorage a c) t h")
    case (Pair r s')
    show ?thesis
    proof (cases r)
      case (Inr obj)
      with Pair show ?thesis by simp
    next
      case (Inl e)
      have "\<not> isPanic e"
      proof
        assume "isPanic e"
        then obtain m where "e = Panic m" by (auto simp: isPanic_iff)
        with Pair Inl have "fst (EncodedObject H (NewObjectStorage a c) t h) = Inl (Panic m)"
          by simp
        with Cons.prems(1) show False by simp
      qed
      moreover from Cons.prems(1)
      have "\<forall>a \<in> set pre. \<forall>c m. fst (EncodedObject H (NewObjectStorage a c) t h) \<noteq> Inl (Panic m)"
        by simp
      note Cons.IH [OF this Cons.prems(2), of "deltaBaseCache s'"]
      ultimately show ?thesis using Pair Inl by simp
    qed
  qed
qed


lemma helloDir_lookup:
  "EncodedObject sampleHash (NewObjectStorage helloDir c) AnyObject helloHash
     = (Inr helloObject, NewObjectStorage helloDir c)"
  by (simp add: EncodedObject.simps getFromUnpacked_def NewObjectStorage_def helloDir_def noFiles_def
        looseFile_def isNotFound_def CheckClose_def helloObject_def hello_def
        SetSize_def SetType_def Write_def newMemoryObject_def)

lemma brokenDir_lookup:
  "EncodedObject sampleHash (NewObjectStorage brokenDir c) AnyObject helloHash
     = (Inl (Errorf ''permission denied''), NewObjectStorage brokenDir c)"
  by (simp add: EncodedObject.simps getFromUnpacked_def NewObjectStorage_def brokenDir_def noFiles_def
        isNotFound_def IsNotExist_def)

lemma sharedStorage_index:
  "requireIndex sharedStorage = (None, sharedStorage\<lparr>index := Some []\<rparr>)"
  by (simp add: requireIndex_def sharedStorage_def NewObjectStorage_def sharedDir_def noFiles_def)


lemma alternatesLoop_skips:
  "\<forall>a \<in> set pre. \<forall>c. \<exists>e s'. EncodedObject H (NewObjectStorage a c) t h = (Inl e, s') \<and> \<not> isPanic e
     \<Longrightarrow> \<exists>c'. alternatesLoop H (pre @ post) c t h = alternatesLoop H post c' t h"
proof (induction pre arbitrary: c)
  case Nil
  show ?case by auto
next
  case (Cons a pre)
  from Cons.prems obtain e s' where a: "EncodedObject H (NewObjectStorage a c) t h = (Inl e, s')"
    "\<not> isPanic e"
    by (meson list.set_intros(1))
  from Cons.prems
  have "\<forall>a \<in> set pre. \<forall>c. \<exists>e s'. EncodedObject H (NewObjectStorage a c) t h = (Inl e, s') \<and> \<not> isPanic e"
    by simp
  from Cons.IH [OF this, of "deltaBaseCache s'"] a show ?case by simp
qed




lemma loadIdxFile_frame:
  "loadIdxFile k s = (r, s1) \<Longrightarrow> dir s1 = dir s \<and> deltaBaseCache s1 = deltaBaseCache s"
  by (auto simp: loadIdxFile_def split: sum.splits option.splits)

lemma loadIdxFiles_frame:
  "loadIdxFiles ks s = (r, s1) \<Longrightarrow> dir s1 = dir s \<and> deltaBaseCache s1 = deltaBaseCache s"
proof (induction ks arbitrary: s)
  case Nil
  then show ?case by simp
next
  case (Cons k ks)
  then show ?case
    by (cases "loadIdxFile k s") (auto split: option.splits dest!: loadIdxFile_frame)
qed

lemma requireIndex_frame:
  "requireIndex s = (r, s1) \<Longrightarrow> dir s1 = dir s \<and> deltaBaseCache s1 = deltaBaseCache s"
  by (auto simp: requireIndex_def split: option.splits sum.splits dest!: loadIdxFiles_frame)

lemma ObjectCache_Get_hit:
  "ObjectCache_Get k c = (Some obj, c') \<Longrightarrow> map_of c k = Some obj"
  by (auto simp: ObjectCache_Get_def split: option.splits)

lemma size_loose:
  assumes "\<forall>f t n b. Object (files (dir s)) h = Inr f \<and> lf_Header f = Inr (t, n)
             \<and> lf_Payload f = Inr b \<longrightarrow> n = int (length b)"
    and "getFromUnpacked H s h = Inr obj"
  shows "fst (EncodedObject H s AnyObject h) = Inr obj
         \<and> (\<exists>b. payload obj = Some b \<and> fst (EncodedObjectSize s h) = (int (length b), None))"
proof -
  have enc: "fst (EncodedObject H s AnyObject h) = Inr obj"
    using assms(2) by (simp add: EncodedObject.simps isNotFound_def)
  from assms(2) obtain f t n b where f: "Object (files (dir s)) h = Inr f"
    "lf_NewReader f = None" "lf_Header f = Inr (t, n)" "lf_Payload f = Inr b"
    "lf_ReaderClose f = None" "lf_Close f = None"
    and obj: "obj = asEncodedObject H (if b = [] then SetSize n (SetType t newMemoryObject)
                                       else Write b (SetSize n (SetType t newMemoryObject)))"
    by (auto simp: getFromUnpacked_def CheckClose_def split: sum.splits option.splits if_splits)
  from assms(1) f have n: "n = int (length b)" by blast
  have p: "payload obj = Some b"
    by (simp add: obj payload_def asEncodedObject_def readerOf_def Write_def SetSize_def
          SetType_def newMemoryObject_def)
  have "fst (EncodedObjectSize s h) = (n, None)"
    using f by (simp add: EncodedObjectSize_def encodedObjectSizeFromUnpacked_def CheckClose_def)
  with enc p n show ?thesis by simp
qed

lemma size_absent_loose:
  "Object (files (dir s)) h = Inl e \<Longrightarrow> IsNotExist e
     \<Longrightarrow> EncodedObjectSize s h = encodedObjectSizeFromPackfile s h"
  by (simp add: EncodedObjectSize_def encodedObjectSizeFromUnpacked_def)

lemma size_packed:
  assumes packs: "\<forall>pk f idx c off obj c1. ObjectPack (files (dir s)) pk = Inr f
                     \<and> pk_GetByOffset f idx c off = (Inr obj, c1)
                  \<longrightarrow> (\<exists>b. payload obj = Some b
                          \<and> fst (pk_GetSizeByOffset f idx c off) = Inr (int (length b)))"
    and closes: "\<forall>pk f. ObjectPack (files (dir s)) pk = Inr f \<longrightarrow> pk_Close f = None"
    and cached: "\<forall>c k obj. deltaBaseCache s = Some c \<and> map_of c k = Some obj
                  \<longrightarrow> (\<exists>b. payload obj = Some b \<and> eo_Size obj = int (length b))"
    and got: "fst (getFromPackfile s h) = Inr obj"
  shows "\<exists>b. payload obj = Some b \<and> fst (encodedObjectSizeFromPackfile s h) = (int (length b), None)"
proof -
  obtain r s1 where ri: "requireIndex s = (r, s1)" by (cases "requireIndex s")
  from requireIndex_frame [OF ri] have fr: "dir s1 = dir s" "deltaBaseCache s1 = deltaBaseCache s"
    by simp_all
  obtain pk hh off where fi: "findObjectInPackfile s1 h = (pk, hh, off)"
    by (cases "findObjectInPackfile s1 h")
  from got ri fi obtain f idx where r: "r = None" and off: "off \<noteq> - 1"
    and f: "ObjectPack (files (dir s)) pk = Inr f"
    and idx: "map_of (case index s1 of None \<Rightarrow> [] | Some m \<Rightarrow> m) pk = Some idx"
    and dec: "fst (decodeObjectAt s1 f idx off) = Inr obj"
    by (auto simp: getFromPackfile_def fr split: option.splits if_splits sum.splits)
  from closes f have cl: "pk_Close f = None" by blast
  have sz: "fst (encodedObjectSizeFromPackfile s h)
              = (case cachedAt idx off (deltaBaseCache s) of
                   (Inl e, c) \<Rightarrow> (0, Some e)
                 | (Inr (Some eo), c) \<Rightarrow> (eo_Size eo, None)
                 | (Inr None, c) \<Rightarrow>
                     (case pk_GetSizeByOffset f idx c off of
                        (Inl e, c1) \<Rightarrow> (0, Some e) | (Inr n, c1) \<Rightarrow> (n, None)))"
    using ri r fi off f idx cl
    by (simp add: encodedObjectSizeFromPackfile_def fr CheckClose_def
          split: prod.splits sum.splits option.splits)
  obtain cr c where ca: "cachedAt idx off (deltaBaseCache s) = (cr, c)"
    by (cases "cachedAt idx off (deltaBaseCache s)")
  show ?thesis
  proof (cases cr)
    case (Inl e)
    with dec ca show ?thesis by (simp add: decodeObjectAt_def fr)
  next
    case (Inr hit)
    show ?thesis
    proof (cases hit)
      case (Some eo)
      with Inr dec ca have "eo = obj" by (simp add: decodeObjectAt_def fr)
      moreover from ca Inr Some obtain c0 k where "deltaBaseCache s = Some c0" "map_of c0 k = Some eo"
        by (auto simp: cachedAt_def split: sum.splits option.splits if_splits prod.splits
              dest: ObjectCache_Get_hit)
      ultimately obtain b where "payload obj = Some b" "eo_Size obj = int (length b)"
        using cached by blast
      with sz ca Inr Some \<open>eo = obj\<close> show ?thesis by simp
    next
      case None
      with Inr dec ca obtain c1 where g: "pk_GetByOffset f idx c off = (Inr obj, c1)"
        by (cases "pk_GetByOffset f idx c off") (simp add: decodeObjectAt_def fr)
      with packs f obtain b where b: "payload obj = Some b"
        "fst (pk_GetSizeByOffset f idx c off) = Inr (int (length b))"
        by blast
      with sz ca Inr None show ?thesis
        by (cases "pk_GetSizeByOffset f idx c off") simp
    qed
  qed
qed


lemma payload_helloObject: "payload helloObject = Some hello"
  by (simp add: payload_def helloObject_def asEncodedObject_def readerOf_def Write_def
        SetType_def SetSize_def newMemoryObject_def)

lemma length_hello: "length hello = 6"
  by (simp add: hello_def)

lemma packedStorage_index:
  "requireIndex packedStorage = (None, packedStorage\<lparr>index := Some [(1, helloIndex)]\<rparr>)"
  by (simp add: requireIndex_def packedStorage_def NewObjectStorage_def packedDir_def noFiles_def
        loadIdxFile_def CheckClose_def)

lemma packedStorage_lookup:
  "fst (getFromPackfile packedStorage helloHash) = Inr helloObject"
  by (simp add: getFromPackfile_def packedStorage_index findObjectInPackfile_def helloIndex_def
        decodeObjectAt_def cachedAt_def ObjectCache_Get_def helloPack_def)
     (simp add: packedStorage_def NewObjectStorage_def packedDir_def noFiles_def helloPack_def
        decodeObjectAt_def cachedAt_def ObjectCache_Get_def)

lemma packDirOf_index:
  "requireIndex (NewObjectStorage (packDirOf pf) c)
     = (None, (NewObjectStorage (packDirOf pf) c)\<lparr>index := Some [(1, helloIndex)]\<rparr>)"
  by (simp add: requireIndex_def NewObjectStorage_def packDirOf_def noFiles_def
        loadIdxFile_def CheckClose_def)

lemma packDirOf_unpacked:
  "getFromUnpacked H (NewObjectStorage (packDirOf pf) c) h = Inl ErrObjectNotFound"
  "encodedObjectSizeFromUnpacked (NewObjectStorage (packDirOf pf) c) h = (0, Some ErrObjectNotFound)"
  by (simp_all add: getFromUnpacked_def encodedObjectSizeFromUnpacked_def NewObjectStorage_def
        packDirOf_def noFiles_def IsNotExist_def)

lemma packDirOf_EncodedObject:
  "fst (EncodedObject H (NewObjectStorage (packDirOf pf) (Some c)) AnyObject helloHash)
     = (case map_of c helloHash of
          Some obj \<Rightarrow> Inr obj
        | None \<Rightarrow> fst (pk_GetByOffset pf helloIndex (Some c) 12))"
  by (simp add: EncodedObject.simps packDirOf_unpacked isNotFound_def getFromPackfile_def
        packDirOf_index findObjectInPackfile_def helloIndex_def decodeObjectAt_def cachedAt_def
        ObjectCache_Get_def split: option.splits sum.splits prod.splits)
     (auto simp: NewObjectStorage_def packDirOf_def noFiles_def helloIndex_def decodeObjectAt_def
        cachedAt_def ObjectCache_Get_def isNotFound_def split: option.splits sum.splits prod.splits)

lemma packDirOf_EncodedObjectSize:
  "fst (EncodedObjectSize (NewObjectStorage (packDirOf pf) (Some c)) helloHash)
     = (case map_of c helloHash of
          Some obj \<Rightarrow> (eo_Size obj, pk_Close pf)
        | None \<Rightarrow>
            (case fst (pk_GetSizeByOffset pf helloIndex (Some c) 12) of
               Inl e \<Rightarrow> (0, Some e)
             | Inr n \<Rightarrow> (n, pk_Close pf)))"
  by (simp add: EncodedObjectSize_def packDirOf_unpacked encodedObjectSizeFromPackfile_def
        packDirOf_index findObjectInPackfile_def helloIndex_def cachedAt_def
        ObjectCache_Get_def CheckClose_def split: option.splits sum.splits prod.splits)
     (auto simp: NewObjectStorage_def packDirOf_def noFiles_def helloIndex_def
        cachedAt_def ObjectCache_Get_def CheckClose_def split: option.splits sum.splits prod.splits)

lemma oddLoose_lookup:
  "fst (EncodedObject sampleHash oddLooseStorage AnyObject helloHash) = Inr helloObject"
  "fst (EncodedObjectSize oddLooseStorage helloHash) = (7, None)"
  by (simp_all add: EncodedObject.simps getFromUnpacked_def oddLooseStorage_def NewObjectStorage_def
        noFiles_def looseFile_def isNotFound_def CheckClose_def helloObject_def hello_def
        SetSize_def SetType_def Write_def newMemoryObject_def EncodedObjectSize_def
        encodedObjectSizeFromUnpacked_def)


lemma packDirOf_getFromPackfile:
  "fst (getFromPackfile (NewObjectStorage (packDirOf pf) (Some c)) helloHash)
     = (case map_of c helloHash of
          Some obj \<Rightarrow> Inr obj
        | None \<Rightarrow> fst (pk_GetByOffset pf helloIndex (Some c) 12))"
  by (simp add: getFromPackfile_def
        packDirOf_index findObjectInPackfile_def helloIndex_def decodeObjectAt_def cachedAt_def
        ObjectCache_Get_def split: option.splits sum.splits prod.splits)
     (auto simp: NewObjectStorage_def packDirOf_def noFiles_def helloIndex_def decodeObjectAt_def
        cachedAt_def ObjectCache_Get_def isNotFound_def split: option.splits sum.splits prod.splits)


section \<open>Theorems: parser\<close>

lemma all_ok_simps [simp]:
  "all_ok []" "all_ok (c # cs) = (snd (snd c) = None \<and> all_ok cs)"
  "all_ok (cs @ ds) = (all_ok cs \<and> all_ok ds)"
  by (auto simp: all_ok_def)

lemma all_ok_broadcast [simp]: "all_ok (broadcast n ev)"
  by (simp add: all_ok_def broadcast_def list_all_iff)

lemma deliver_spec:
  "deliver ev (enumerate k obs) cs = (r, cs') \<Longrightarrow>
     (r = None \<longrightarrow> cs' = cs @ map (\<lambda>j. (j, ev, None)) [k..<k + length obs])
     \<and> (\<forall>e. r = Some e \<longrightarrow>
           (\<exists>m < length obs. cs' = cs @ map (\<lambda>j. (j, ev, None)) [k..<k + m] @ [(k + m, ev, Some e)]))"
proof (induction obs arbitrary: k cs)
  case Nil
  then show ?case by simp
next
  case (Cons a obs)
  show ?case
  proof (cases "a (events_of k cs @ [ev])")
    case (Some e)
    with Cons.prems have "r = Some e" "cs' = cs @ [(k, ev, Some e)]" by auto
    then show ?thesis by (auto intro!: exI [of _ 0])
  next
    case None
    with Cons.prems have d: "deliver ev (enumerate (Suc k) obs) (cs @ [(k, ev, None)]) = (r, cs')"
      by simp
    note ih = Cons.IH [OF d]
    have up: "[k..<k + Suc n] = k # [Suc k..<Suc k + n]" for n
      by (simp add: upt_conv_Cons)
    show ?thesis
    proof (intro conjI impI allI)
      assume "r = None"
      with ih have "cs' = (cs @ [(k, ev, None)]) @ map (\<lambda>j. (j, ev, None)) [Suc k..<Suc k + length obs]"
        by blast
      then show "cs' = cs @ map (\<lambda>j. (j, ev, None)) [k..<k + length (a # obs)]"
        by (simp only: length_Cons up list.map append.simps append_assoc)
    next
      fix e assume "r = Some e"
      with ih obtain m where m: "m < length obs"
        "cs' = (cs @ [(k, ev, None)]) @ map (\<lambda>j. (j, ev, None)) [Suc k..<Suc k + m] @ [(Suc k + m, ev, Some e)]"
        by blast
      then show "\<exists>m<length (a # obs). cs' = cs @ map (\<lambda>j. (j, ev, None)) [k..<k + m] @ [(k + m, ev, Some e)]"
      proof (intro exI [of _ "Suc m"] conjI)
        show "Suc m < length (a # obs)" using m(1) by simp
        show "cs' = cs @ map (\<lambda>j. (j, ev, None)) [k..<k + Suc m] @ [(k + Suc m, ev, Some e)]"
          unfolding m(2) by (simp del: upt_Suc add: upt_conv_Cons)
      qed
    qed
  qed
qed

lemma forEachObserver_ok:
  assumes "forEachObserver ev p = (None, p')"
  shows "p' = p\<lparr>calls := calls p @ broadcast (length (ob p)) ev\<rparr>"
proof -
  obtain r cs' where d: "deliver ev (enumerate 0 (ob p)) (calls p) = (r, cs')"
    by (cases "deliver ev (enumerate 0 (ob p)) (calls p)")
  with assms have "r = None" "p' = p\<lparr>calls := cs'\<rparr>"
    by (simp_all add: forEachObserver_def)
  with deliver_spec [OF d] show ?thesis
    by (simp add: broadcast_def)
qed

lemma forEachObserver_err:
  assumes "forEachObserver ev p = (Some e, p')"
  shows "\<exists>m < length (ob p). p' = p\<lparr>calls := calls p @ broadcast m ev @ [(m, ev, Some e)]\<rparr>"
proof -
  obtain r cs' where d: "deliver ev (enumerate 0 (ob p)) (calls p) = (r, cs')"
    by (cases "deliver ev (enumerate 0 (ob p)) (calls p)")
  with assms have "r = Some e" "p' = p\<lparr>calls := cs'\<rparr>"
    by (simp_all add: forEachObserver_def)
  with deliver_spec [OF d] show ?thesis
    by (auto simp: broadcast_def)
qed

lemma unchanged_refl [simp]: "unchanged p p"
  by (simp add: unchanged_def)

lemma unchanged_trans: "unchanged p q \<Longrightarrow> unchanged q r \<Longrightarrow> unchanged p r"
  by (simp add: unchanged_def)

lemma links_update [simp]:
  "links (n\<lparr>Type := t\<rparr>) = links n" "links (n\<lparr>SHA1 := h\<rparr>) = links n"
  "links (n\<lparr>Length := l\<rparr>) = links n"
  by (simp_all add: links_def)

lemma links_nth_update:
  "links v = links (xs ! a) \<Longrightarrow> links (xs[a := v] ! b) = links (xs ! b)"
  by (metis list_update_beyond not_le nth_list_update_eq nth_list_update_neq)

lemma unchanged_fields [simp]:
  "unchanged p (q\<lparr>scanner := sc\<rparr>) = unchanged p q"
  "unchanged p (q\<lparr>cache := c\<rparr>) = unchanged p q"
  "unchanged p (q\<lparr>storage := st\<rparr>) = unchanged p q"
  by (auto simp: unchanged_def)

lemma unchanged_modify [simp]:
  "(\<And>n. links (f n) = links n) \<Longrightarrow> unchanged p (modify a f q) = unchanged p q"
  by (simp add: unchanged_def modify_def links_nth_update)

lemma readData_unchanged: "readData env a p = (r, p') \<Longrightarrow> unchanged p p'"
  by (auto simp: readData_def split: if_splits option.splits sum.splits prod.splits)

lemma applyPatchBase_unchanged: "applyPatchBase env a data base p = (r, p') \<Longrightarrow> unchanged p p'"
  by (auto simp: applyPatchBase_def Let_def split: if_splits option.splits sum.splits)

lemma resolveObject_unchanged:
  assumes "resolveObject env a base p = (r, p')"
  shows "unchanged p p'"
proof (cases "IsDelta (DiskType (node p a))")
  case False
  with assms show ?thesis by (simp add: resolveObject_def)
next
  case True
  obtain r1 p1 where rd: "readData env a p = (r1, p1)" by (cases "readData env a p")
  note u1 = readData_unchanged [OF rd]
  show ?thesis
  proof (cases r1)
    case (Inl e)
    with assms True rd u1 show ?thesis by (simp add: resolveObject_def)
  next
    case (Inr data)
    obtain r2 p2 where ap: "applyPatchBase env a data base p1 = (r2, p2)"
      by (cases "applyPatchBase env a data base p1")
    note u2 = unchanged_trans [OF u1 applyPatchBase_unchanged [OF ap]]
    show ?thesis
    proof (cases r2)
      case (Inl e)
      with assms True rd Inr ap u2 show ?thesis by (simp add: resolveObject_def)
    next
      case r2: (Inr patched)
      show ?thesis
      proof (cases "storage p2")
        case None
        with assms True rd Inr ap r2 u2 show ?thesis by (simp add: resolveObject_def)
      next
        case (Some st)
        with assms True rd Inr ap r2 u2 show ?thesis
          by (auto simp: resolveObject_def split: prod.splits option.splits)
      qed
    qed
  qed
qed

lemma getStored_unchanged:
  assumes "getStored env a p = (r, p')"
  shows "unchanged p p'"
  using assms
  by (auto simp: getStored_def Let_def split: if_splits sum.splits prod.splits option.splits)

lemma get_unchanged: "get fuel env a p = Some (r, p') \<Longrightarrow> unchanged p p'"
proof (induction fuel arbitrary: a p r p')
  case 0
  then show ?case by simp
next
  case (Suc fuel)
  obtain r1 p1 where gs: "getStored env a p = (r1, p1)" by (cases "getStored env a p")
  note u1 = getStored_unchanged [OF gs]
  have put: "unchanged p q \<Longrightarrow>
      unchanged p (if length (Children (node q a)) > 0
                   then q\<lparr>cache := BufferLRU_Put (Offset (node q a)) data (cache q)\<rparr> else q)" for q data
    by simp
  show ?case
  proof (cases r1)
    case (Inl e)
    with Suc.prems gs u1 show ?thesis by simp
  next
    case (Inr b)
    show ?thesis
    proof (cases b)
      case (Some x)
      with Suc.prems gs u1 Inr show ?thesis by simp
    next
      case None
      show ?thesis
      proof (cases "ExternalRef (node p1 a)")
        case True
        with Suc.prems gs u1 Inr None show ?thesis by simp
      next
        case ext: False
        show ?thesis
        proof (cases "IsDelta (DiskType (node p1 a))")
          case False
          obtain r2 p2 where rd: "readData env a p1 = (r2, p2)" by (cases "readData env a p1")
          note u2 = unchanged_trans [OF u1 readData_unchanged [OF rd]]
          from Suc.prems gs Inr None ext False rd u2 put [OF u2] show ?thesis
            by (auto split: sum.splits)
        next
          case True
          show ?thesis
          proof (cases "Parent (node p1 a)")
            case None
            with Suc.prems gs Inr \<open>b = None\<close> ext True u1 show ?thesis by simp
          next
            case (Some parent)
            show ?thesis
            proof (cases "get fuel env parent p1")
              case None
              with Suc.prems gs Inr \<open>b = None\<close> ext True Some show ?thesis by simp
            next
              case g: (Some res)
              obtain r2 p2 where res: "res = (r2, p2)" by (cases res)
              note u2 = unchanged_trans [OF u1 Suc.IH [OF g [unfolded res]]]
              show ?thesis
              proof (cases r2)
                case (Inl e)
                with Suc.prems gs Inr \<open>b = None\<close> ext True Some g res u2 show ?thesis by simp
              next
                case base: (Inr base)
                obtain r3 p3 where ro: "resolveObject env a base p2 = (r3, p3)"
                  by (cases "resolveObject env a base p2")
                note u3 = unchanged_trans [OF u2 resolveObject_unchanged [OF ro]]
                from Suc.prems gs Inr \<open>b = None\<close> ext True Some g res base ro u3 put [OF u3]
                show ?thesis
                  by (auto split: sum.splits)
              qed
            qed
          qed
        qed
      qed
    qed
  qed
qed

lemma resolveChildren_unchanged: "resolveChildren env cs content p = (r, p') \<Longrightarrow> unchanged p p'"
proof (induction cs arbitrary: p)
  case Nil
  then show ?case by simp
next
  case (Cons c cs)
  obtain r1 p1 where ro: "resolveObject env c content p = (r1, p1)"
    by (cases "resolveObject env c content p")
  note u1 = resolveObject_unchanged [OF ro]
  from Cons.prems ro u1 show ?case
    by (auto split: sum.splits intro: unchanged_trans [OF u1] Cons.IH)
qed

lemma lastError_simps [simp]:
  "lastError [] = None" "lastError (cs @ [c]) = snd (snd c)"
  by (simp_all add: lastError_def)

lemma all_ok_lastError: "all_ok cs \<Longrightarrow> lastError cs = None"
  by (cases cs rule: rev_cases) simp_all

lemma all_ok_butlast: "all_ok (butlast cs) \<Longrightarrow> lastError cs = None \<Longrightarrow> all_ok cs"
  by (cases cs rule: rev_cases) simp_all

lemma aborts_refl [simp]: "aborts r cs cs"
  by (auto simp: aborts_def)

lemma aborts_ok: "aborts r cs (cs @ new) = (all_ok (butlast new) \<and> (lastError new = None \<or> lastError new = r))"
  by (auto simp: aborts_def)

lemma aborts_all_ok: "all_ok new \<Longrightarrow> aborts r cs (cs @ new)"
  by (cases new rule: rev_cases) (auto simp: aborts_def)

lemma aborts_None: "aborts None cs cs' = (\<exists>new. cs' = cs @ new \<and> all_ok new)"
  by (auto simp: aborts_def all_ok_lastError dest: all_ok_butlast)
     (metis all_ok_simps(3) append_butlast_last_id butlast.simps(1))

lemma aborts_trans: "aborts None cs cs' \<Longrightarrow> aborts r cs' cs'' \<Longrightarrow> aborts r cs cs''"
proof -
  assume "aborts None cs cs'" and b: "aborts r cs' cs''"
  then obtain n1 where n1: "cs' = cs @ n1" "all_ok n1" by (auto simp: aborts_None)
  from b obtain n2 where n2: "cs'' = cs' @ n2" "all_ok (butlast n2)"
    "lastError n2 = None \<or> lastError n2 = r"
    by (auto simp: aborts_def)
  show ?thesis
  proof (cases n2 rule: rev_cases)
    case Nil
    with n1 n2 show ?thesis by (simp add: aborts_all_ok)
  next
    case (snoc ys y)
    have le: "lastError (n1 @ ys @ [y]) = snd (snd y)"
      using lastError_simps(2) [of "n1 @ ys" y] by simp
    from snoc n1 n2 show ?thesis
      by (auto simp: aborts_def le intro!: exI [of _ "n1 @ ys @ [y]"] simp: butlast_append)
  qed
qed

lemma unchanged_aborts: "unchanged p p' \<Longrightarrow> aborts r (calls p) (calls p')"
  by (simp add: unchanged_def)

lemma forEachObserver_aborts:
  "forEachObserver ev p = (r, p') \<Longrightarrow> aborts r (calls p) (calls p') \<and> p' = p\<lparr>calls := calls p'\<rparr>"
proof (cases r)
  case None
  assume "forEachObserver ev p = (r, p')"
  with None have "p' = p\<lparr>calls := calls p @ broadcast (length (ob p)) ev\<rparr>"
    by (simp add: forEachObserver_ok)
  then have "calls p' = calls p @ broadcast (length (ob p)) ev" and "p' = p\<lparr>calls := calls p'\<rparr>"
    by simp_all
  then show ?thesis by (simp add: aborts_all_ok)
next
  case (Some e)
  assume "forEachObserver ev p = (r, p')"
  with Some obtain m where "p' = p\<lparr>calls := calls p @ broadcast m ev @ [(m, ev, Some e)]\<rparr>"
    using forEachObserver_err by blast
  with Some show ?thesis
    by (simp add: aborts_ok butlast_append)
qed

lemma kept_refl [simp]: "kept p p"
  by (simp add: kept_def)

lemma kept_trans: "kept p q \<Longrightarrow> kept q r \<Longrightarrow> kept p r"
  by (simp add: kept_def)

lemma unchanged_kept: "unchanged p p' \<Longrightarrow> kept p p'"
  by (simp add: unchanged_def kept_def)

lemma kept_fields [simp]:
  "kept p (q\<lparr>calls := cs\<rparr>) = kept p q"
  "kept p (q\<lparr>deltas := d\<rparr>) = kept p q"
  by (simp_all add: kept_def)

lemma kept_links: "kept p p' \<Longrightarrow> links (heap p' ! a) = links (heap p ! a)"
  by (auto simp: kept_def dest: fun_cong)

lemma kept_Offset: "kept p p' \<Longrightarrow> Offset (heap p' ! a) = Offset (heap p ! a)"
  using kept_links [of p p' a] by (simp add: links_def)

lemma forEachObserver_kept: "forEachObserver ev p = (r, p') \<Longrightarrow> kept p p'"
  by (auto simp: forEachObserver_def split: prod.splits)

lemma resolveOne_spec:
  assumes "resolveOne fuel env obj p = Some (r, p')"
  shows "aborts r (calls p) (calls p') \<and> kept p p'
         \<and> (r = None \<longrightarrow>
              (\<exists>a x. obj = Some a \<and> io_Pos x = Offset (heap p ! a)
                 \<and> calls p' = calls p @ concat (map (broadcast (length (ob p))) (inflated x))))"
proof (cases obj)
  case None
  with assms show ?thesis by (auto simp: resolveOne_def)
next
  case (Some a)
  show ?thesis
  proof (cases "get fuel env a p")
    case None
    with assms Some show ?thesis by (simp add: resolveOne_def)
  next
    case g: (Some res)
    obtain r1 p1 where res: "res = (r1, p1)" by (cases res)
    note u1 = get_unchanged [OF g [unfolded res]]
    show ?thesis
    proof (cases r1)
      case (Inl e)
      with assms Some g res u1 show ?thesis
        by (auto simp: resolveOne_def unchanged_aborts unchanged_kept)
    next
      case (Inr content)
      define x where "x = \<lparr>io_Type = Type (node p1 a), io_Size = Length (node p1 a),
        io_Pos = Offset (node p1 a), io_Hash = SHA1 (node p1 a), io_Crc = Crc32 (node p1 a),
        io_Content = content\<rparr>"
      have pos: "io_Pos x = Offset (heap p ! a)"
        using kept_Offset [OF unchanged_kept [OF u1], of a] by (simp add: x_def node_def)
      have c1: "calls p1 = calls p" and o1: "ob p1 = ob p" using u1 by (simp_all add: unchanged_def)
      obtain r2 p2 where h: "onInflatedObjectHeader (Type (node p1 a)) (Length (node p1 a)) (Offset (node p1 a)) p1 = (r2, p2)"
        by (cases "onInflatedObjectHeader (Type (node p1 a)) (Length (node p1 a)) (Offset (node p1 a)) p1")
      from h have fh: "forEachObserver (OnInflatedObjectHeader (io_Type x) (io_Size x) (io_Pos x)) p1 = (r2, p2)"
        by (simp add: onInflatedObjectHeader_def x_def)
      note a2 = forEachObserver_aborts [OF fh]
      have k2: "kept p p2"
        using kept_trans [OF unchanged_kept [OF u1] forEachObserver_kept [OF fh]] .
      show ?thesis
      proof (cases r2)
        case (Some e)
        with assms \<open>obj = Some a\<close> g res Inr h have "r = Some e" "p' = p2"
          by (simp_all add: resolveOne_def)
        with a2 Some k2 c1 show ?thesis by simp
      next
        case None
        from a2 have same2: "p2 = p1\<lparr>calls := calls p2\<rparr>" by simp
        from arg_cong [OF same2, of heap] have n2: "node p2 a = node p1 a"
          by (simp add: node_def)
        from forEachObserver_ok [OF fh [unfolded None]] c1 o1
        have cs2: "calls p2 = calls p @ broadcast (length (ob p)) (OnInflatedObjectHeader (io_Type x) (io_Size x) (io_Pos x))"
          by simp
        obtain r3 p3 where c: "onInflatedObjectContent (SHA1 (node p2 a)) (Offset (node p2 a)) (Crc32 (node p2 a)) content p2 = (r3, p3)"
          by (cases "onInflatedObjectContent (SHA1 (node p2 a)) (Offset (node p2 a)) (Crc32 (node p2 a)) content p2")
        then have fc: "forEachObserver (OnInflatedObjectContent (io_Hash x) (io_Pos x) (io_Crc x) (io_Content x)) p2 = (r3, p3)"
          by (simp add: onInflatedObjectContent_def x_def n2)
        note a3 = forEachObserver_aborts [OF fc]
        have k3: "kept p p3"
          using kept_trans [OF k2 forEachObserver_kept [OF fc]] .
        have ab3: "aborts r3 (calls p) (calls p3)"
          by (rule aborts_trans [OF _ conjunct1 [OF a3]]) (simp add: cs2 aborts_all_ok)
        show ?thesis
        proof (cases r3)
          case (Some e)
          with assms \<open>obj = Some a\<close> g res Inr h \<open>r2 = None\<close> c have "r = Some e" "p' = p3"
            by (simp_all add: resolveOne_def)
          with ab3 Some k3 show ?thesis by simp
        next
          case r3: None
          have ob2: "ob p2 = ob p" using k2 by (simp add: kept_def)
          from forEachObserver_ok [OF fc [unfolded r3]] cs2 ob2
          have cs3: "calls p3 = calls p @ concat (map (broadcast (length (ob p))) (inflated x))"
            by (simp add: inflated_def)
          have ok3: "aborts None (calls p) (calls p3)"
            by (simp add: cs3 aborts_all_ok inflated_def)
          show ?thesis
          proof (cases "\<not> IsDelta (Type (node p3 a)) \<and> length (Children (node p3 a)) > 0")
            case False
            with assms \<open>obj = Some a\<close> g res Inr h \<open>r2 = None\<close> c r3 have "r = None" "p' = p3"
              by (auto simp: resolveOne_def)
            with ok3 k3 cs3 pos \<open>obj = Some a\<close> show ?thesis by auto
          next
            case True
            obtain r4 p4 where rc: "resolveChildren env (Children (node p3 a)) content p3 = (r4, p4)"
              by (cases "resolveChildren env (Children (node p3 a)) content p3")
            note u4 = resolveChildren_unchanged [OF rc]
            have k4: "kept p p4" using kept_trans [OF k3 unchanged_kept [OF u4]] .
            have c4: "calls p4 = calls p3" using u4 by (simp add: unchanged_def)
            show ?thesis
            proof (cases r4)
              case (Some e)
              with assms \<open>obj = Some a\<close> g res Inr h \<open>r2 = None\<close> c r3 True rc have "r = Some e" "p' = p4"
                by (simp_all add: resolveOne_def)
              with k4 c4 cs3 show ?thesis by (simp add: aborts_all_ok inflated_def)
            next
              case None
              with assms \<open>obj = Some a\<close> g res Inr h \<open>r2 = None\<close> c r3 True rc
              have "r = None"
                and p': "p' = (if IsDelta (DiskType (node p4 a)) \<and> \<not> sc_IsSeekable env (scanner p4)
                               then p4\<lparr>deltas := map_option (\<lambda>d. d(Offset (node p4 a) := None)) (deltas p4)\<rparr>
                               else p4)"
                by (simp_all add: resolveOne_def)
              from k4 c4 have "kept p p'" "calls p' = calls p3" by (simp_all add: p')
              with \<open>r = None\<close> cs3 pos \<open>obj = Some a\<close> show ?thesis
                by (auto simp: aborts_all_ok inflated_def)
            qed
          qed
        qed
      qed
    qed
  qed
qed

lemma resolveLoop_spec:
  "resolveLoop fuel env objs p = Some (r, p') \<Longrightarrow>
     aborts r (calls p) (calls p') \<and> kept p p'
     \<and> (r = None \<longrightarrow>
          (\<exists>xs. calls p' = calls p @ concat (map (broadcast (length (ob p))) (concat (map inflated xs)))
             \<and> list_all2 (\<lambda>obj x. \<exists>a. obj = Some a \<and> io_Pos x = Offset (heap p ! a)) objs xs))"
proof (induction objs arbitrary: p)
  case Nil
  then show ?case by (auto intro: exI [of _ "[]"])
next
  case (Cons obj objs)
  show ?case
  proof (cases "resolveOne fuel env obj p")
    case None
    with Cons.prems show ?thesis by simp
  next
    case (Some res)
    obtain r1 p1 where res: "res = (r1, p1)" by (cases res)
    note s1 = resolveOne_spec [OF Some [unfolded res]]
    show ?thesis
    proof (cases r1)
      case (Some e)
      with Cons.prems \<open>resolveOne fuel env obj p = Some res\<close> res have "r = Some e" "p' = p1" by simp_all
      with s1 Some show ?thesis by simp
    next
      case None
      with Cons.prems \<open>resolveOne fuel env obj p = Some res\<close> res
      have rest: "resolveLoop fuel env objs p1 = Some (r, p')" by simp
      note ih = Cons.IH [OF rest]
      from s1 None obtain a x where x: "obj = Some a" "io_Pos x = Offset (heap p ! a)"
        "calls p1 = calls p @ concat (map (broadcast (length (ob p))) (inflated x))"
        by blast
      from s1 have k1: "kept p p1" and ab1: "aborts None (calls p) (calls p1)"
        using None by simp_all
      have ob1: "ob p1 = ob p" using k1 by (simp add: kept_def)
      have ab: "aborts r (calls p) (calls p')"
        using aborts_trans [OF ab1] ih by blast
      have k: "kept p p'" using kept_trans [OF k1] ih by blast
      have shape: "\<exists>xs. calls p' = calls p @ concat (map (broadcast (length (ob p))) (concat (map inflated xs)))
             \<and> list_all2 (\<lambda>obj x. \<exists>a. obj = Some a \<and> io_Pos x = Offset (heap p ! a)) (obj # objs) xs"
        if "r = None"
      proof -
        from ih that obtain xs where xs:
          "calls p' = calls p1 @ concat (map (broadcast (length (ob p1))) (concat (map inflated xs)))"
          "list_all2 (\<lambda>obj x. \<exists>a. obj = Some a \<and> io_Pos x = Offset (heap p1 ! a)) objs xs"
          by blast
        from xs(2) have "list_all2 (\<lambda>obj x. \<exists>a. obj = Some a \<and> io_Pos x = Offset (heap p ! a)) objs xs"
          by (simp add: kept_Offset [OF k1])
        with x xs(1) ob1 show ?thesis
          by (intro exI [of _ "x # xs"]) simp
      qed
      from ab k shape show ?thesis by blast
    qed
  qed
qed

lemma init_spec:
  assumes "init env p = (r, p1)"
  shows "aborts r (calls p) (calls p1) \<and> ob p1 = ob p
         \<and> (r = None \<longrightarrow>
              (\<exists>v c sc. sc_Header env (scanner p) = (Inr (v, c), sc)
                 \<and> calls p1 = calls p @ broadcast (length (ob p)) (OnHeader c)
                 \<and> count p1 = c \<and> oi p1 = replicate (unat c) None))"
proof (cases "sc_Header env (scanner p)")
  case (Pair hr sc)
  show ?thesis
  proof (cases hr)
    case (Inl e)
    with assms Pair show ?thesis by (auto simp: init_def)
  next
    case (Inr vc)
    obtain v c where vc: "vc = (v, c)" by (cases vc)
    obtain r2 p2 where f: "forEachObserver (OnHeader c) (p\<lparr>scanner := sc\<rparr>) = (r2, p2)"
      by (cases "forEachObserver (OnHeader c) (p\<lparr>scanner := sc\<rparr>)")
    note a = forEachObserver_aborts [OF f]
    from forEachObserver_kept [OF f] have ob2: "ob p2 = ob p" by (simp add: kept_def)
    show ?thesis
    proof (cases r2)
      case (Some e)
      with assms Pair Inr vc f have "r = Some e" "p1 = p2" by (simp_all add: init_def onHeader_def)
      with a Some ob2 show ?thesis by simp
    next
      case None
      with assms Pair Inr vc f have r: "r = None"
        and p1: "p1 = p2\<lparr>count := c, oiByHash := Map.empty, oiByOffset := Map.empty,
                         oi := replicate (unat c) None\<rparr>"
        by (simp_all add: init_def onHeader_def)
      from forEachObserver_ok [OF f [unfolded None]]
      have "calls p2 = calls p @ broadcast (length (ob p)) (OnHeader c)" by simp
      with r p1 ob2 Pair Inr vc show ?thesis by (simp add: aborts_all_ok)
    qed
  qed
qed

lemma indexSwitch_frame:
  "indexSwitch oh p = (r, p') \<Longrightarrow>
     calls p' = calls p \<and> ob p' = ob p \<and> count p' = count p \<and> oi p' = oi p"
  by (auto simp: indexSwitch_def alloc_def modify_def Let_def split: if_splits option.splits)

lemma indexPayload_frame:
  "indexPayload env i oh delta ota p = (r, p') \<Longrightarrow>
     calls p' = calls p \<and> ob p' = ob p \<and> count p' = count p \<and> length (oi p') = length (oi p)"
  by (auto simp: indexPayload_def modify_def Let_def
           split: if_splits option.splits sum.splits prod.splits)

lemma indexObject_frame:
  "indexObject env i p = (r, p') \<Longrightarrow>
     calls p' = calls p \<and> ob p' = ob p \<and> count p' = count p \<and> length (oi p') = length (oi p)"
  by (auto simp: indexObject_def split: sum.splits prod.splits
           dest!: indexSwitch_frame indexPayload_frame)

lemma indexLoop_frame:
  "indexLoop env i p = (r, p') \<Longrightarrow>
     calls p' = calls p \<and> ob p' = ob p \<and> count p' = count p \<and> length (oi p') = length (oi p)"
proof (induction env i p rule: indexLoop.induct)
  case (1 env i p)
  show ?case
  proof (cases "i < unat (count p)")
    case False
    with "1.prems" show ?thesis by (simp add: indexLoop.simps)
  next
    case True
    obtain r1 p1 where io: "indexObject env i p = (r1, p1)" by (cases "indexObject env i p")
    note f1 = indexObject_frame [OF io]
    show ?thesis
    proof (cases r1)
      case (Some e)
      with "1.prems" True io f1 show ?thesis by (simp add: indexLoop.simps [of env i p])
    next
      case None
      with "1.prems" True io have "indexLoop env (i + 1) p1 = (r, p')"
        by (simp add: indexLoop.simps [of env i p])
      from "1.IH" [OF True io [symmetric] None this] f1 show ?thesis by simp
    qed
  qed
qed

lemma filter_upt_eq: "j < n \<Longrightarrow> filter (\<lambda>i. i = j) [0..<n] = [j]"
proof (induction n)
  case 0
  then show ?case by simp
next
  case (Suc n)
  show ?case
  proof (cases "j < n")
    case True
    with Suc.IH show ?thesis by simp
  next
    case False
    with Suc.prems have "j = n" by simp
    then have "filter (\<lambda>i. i = j) [0..<n] = []" by (auto simp: filter_empty_conv)
    with \<open>j = n\<close> show ?thesis by simp
  qed
qed

lemma events_of_append [simp]: "events_of j (cs @ ds) = events_of j cs @ events_of j ds"
  by (simp add: events_of_def)

lemma events_of_broadcast: "j < n \<Longrightarrow> events_of j (broadcast n ev) = [ev]"
  by (simp add: events_of_def broadcast_def filter_map comp_def filter_upt_eq)

lemma events_of_broadcasts: "j < n \<Longrightarrow> events_of j (concat (map (broadcast n) evs)) = evs"
  by (induction evs) (simp_all add: events_of_broadcast events_of_def [of j "[]"])

lemma Parse_spec:
  assumes "Parse fuel env p = Some (r, p')"
  shows "aborts (err_of r) (calls p) (calls p')
         \<and> (\<forall>h. r = Inr h \<longrightarrow>
              (\<exists>v c sc xs. sc_Header env (scanner p) = (Inr (v, c), sc) \<and> length xs = unat c
                 \<and> calls p' = calls p @ concat (map (broadcast (length (ob p)))
                                  (OnHeader c # concat (map inflated xs) @ [OnFooter h]))
                 \<and> (\<forall>k < unat c. \<exists>a. oi p' ! k = Some a \<and> io_Pos (xs ! k) = Offset (node p' a))))"
proof -
  obtain r1 p1 where i: "init env p = (r1, p1)" by (cases "init env p")
  note s1 = init_spec [OF i]
  show ?thesis
  proof (cases r1)
    case (Some e)
    with assms i have "r = Inl e" "p' = p1" by (simp_all add: Parse_def)
    with s1 Some show ?thesis by (simp add: err_of_def)
  next
    case r1: None
    from s1 r1 obtain v c sc where hdr: "sc_Header env (scanner p) = (Inr (v, c), sc)"
      and cs1: "calls p1 = calls p @ broadcast (length (ob p)) (OnHeader c)"
      and c1: "count p1 = c" and oi1: "oi p1 = replicate (unat c) None" and ob1: "ob p1 = ob p"
      by blast
    obtain r2 p2 where ix: "indexObjects env p1 = (r2, p2)" by (cases "indexObjects env p1")
    from indexLoop_frame [OF ix [unfolded indexObjects_def]] cs1 ob1 oi1
    have cs2: "calls p2 = calls p @ broadcast (length (ob p)) (OnHeader c)"
      and ob2: "ob p2 = ob p" and len2: "length (oi p2) = unat c"
      by simp_all
    have ab2: "aborts x (calls p) (calls p2)" for x
      by (simp add: cs2 aborts_all_ok)
    show ?thesis
    proof (cases r2)
      case (Some e)
      with assms i r1 ix have "r = Inl e" "p' = p2" by (simp_all add: Parse_def)
      with ab2 show ?thesis by simp
    next
      case r2: None
      obtain h cerr sc3 where ck: "sc_Checksum env (scanner p2) = ((h, cerr), sc3)"
        by (cases "sc_Checksum env (scanner p2)") auto
      define p3 where "p3 = p2\<lparr>checksum := h, scanner := sc3\<rparr>"
      have cs3: "calls p3 = calls p2" "ob p3 = ob p" "oi p3 = oi p2" "checksum p3 = h"
        by (simp_all add: p3_def ob2)
      show ?thesis
      proof (cases "if cerr = Some EOF then None else cerr")
        case (Some e)
        with assms i r1 ix r2 ck have "r = Inl e" "p' = p3"
          by (simp_all add: Parse_def p3_def)
        with ab2 cs3 show ?thesis by simp
      next
        case ce: None
        show ?thesis
        proof (cases "resolveLoop fuel env (oi p3) p3")
          case None
          with assms i r1 ix r2 ck ce show ?thesis
            by (simp add: Parse_def p3_def resolveDeltas_def)
        next
          case (Some res)
          obtain r4 p4 where res: "res = (r4, p4)" by (cases res)
          note s4 = resolveLoop_spec [OF Some [unfolded res]]
          from s4 have k4: "kept p3 p4" by simp
          from aborts_trans [OF ab2 [of None]] s4 cs3 have ab4: "aborts r4 (calls p) (calls p4)"
            by simp
          show ?thesis
          proof (cases r4)
            case (Some e)
            with assms i r1 ix r2 ck ce \<open>resolveLoop fuel env (oi p3) p3 = Some res\<close> res
            have "r = Inl e" "p' = p4"
              by (simp_all add: Parse_def p3_def resolveDeltas_def)
            with ab4 Some show ?thesis by (simp add: err_of_def)
          next
            case r4: None
            from k4 cs3 have ck4: "checksum p4 = h" "ob p4 = ob p" "oi p4 = oi p2"
              by (simp_all add: kept_def)
            obtain r5 p5 where ft: "forEachObserver (OnFooter h) p4 = (r5, p5)"
              by (cases "forEachObserver (OnFooter h) p4")
            note a5 = forEachObserver_aborts [OF ft]
            from aborts_trans [OF ab4 [unfolded r4]] a5 have ab5: "aborts r5 (calls p) (calls p5)"
              by blast
            from assms i r1 ix r2 ck ce \<open>resolveLoop fuel env (oi p3) p3 = Some res\<close> res r4 ft ck4
            have out: "p' = p5" "r = (case r5 of Some e \<Rightarrow> Inl e | None \<Rightarrow> Inr (checksum p5))"
              by (auto simp: Parse_def p3_def resolveDeltas_def onFooter_def split: option.splits)
            show ?thesis
            proof (cases r5)
              case (Some e)
              with out ab5 show ?thesis by (simp add: err_of_def)
            next
              case r5: None
              from a5 have same: "p5 = p4\<lparr>calls := calls p5\<rparr>" by simp
              from arg_cong [OF same, of heap] arg_cong [OF same, of oi] arg_cong [OF same, of checksum]
              have p5: "heap p5 = heap p4" "oi p5 = oi p4" "checksum p5 = h"
                by (simp_all add: ck4)
              from s4 r4 obtain xs where xs:
                "calls p4 = calls p3 @ concat (map (broadcast (length (ob p3))) (concat (map inflated xs)))"
                "list_all2 (\<lambda>obj x. \<exists>a. obj = Some a \<and> io_Pos x = Offset (heap p3 ! a)) (oi p3) xs"
                by blast
              from xs(2) have len: "length xs = unat c"
                using len2 cs3 by (auto dest: list_all2_lengthD)
              from forEachObserver_ok [OF ft [unfolded r5]] xs(1) cs3 cs2 ck4
              have calls: "calls p5 = calls p @ concat (map (broadcast (length (ob p)))
                             (OnHeader c # concat (map inflated xs) @ [OnFooter h]))"
                by simp
              have order: "\<exists>a. oi p5 ! k = Some a \<and> io_Pos (xs ! k) = Offset (node p5 a)"
                if "k < unat c" for k
              proof -
                from xs(2) that len have "\<exists>a. oi p3 ! k = Some a \<and> io_Pos (xs ! k) = Offset (heap p3 ! a)"
                  by (simp add: list_all2_conv_all_nth)
                then show ?thesis
                  by (simp add: p5 ck4 cs3 node_def kept_Offset [OF k4])
              qed
              from out r5 p5 have "r = Inr h" by simp
              with out ab5 r5 hdr len calls order show ?thesis
                by (auto simp: err_of_def)
            qed
          qed
        qed
      qed
    qed
  qed
qed


lemma deliver_accepting:
  "\<forall>x \<in> set obs. \<forall>es. snd x es = None \<Longrightarrow> fst (deliver ev obs cs) = None"
  by (induction obs arbitrary: cs) auto

lemma forEachObserver_accepting:
  assumes "\<forall>x \<in> set (ob p). \<forall>es. x es = None"
  shows "forEachObserver ev p = (None, p\<lparr>calls := calls p @ broadcast (length (ob p)) ev\<rparr>)"
proof -
  have "\<forall>x \<in> set (enumerate 0 (ob p)). \<forall>es. snd x es = None"
    using assms by (auto simp: enumerate_eq_zip dest: set_zip_rightD)
  from deliver_accepting [OF this, of ev "calls p"]
  have "fst (forEachObserver ev p) = None"
    by (cases "deliver ev (enumerate 0 (ob p)) (calls p)") (simp add: forEachObserver_def)
  then obtain p' where f: "forEachObserver ev p = (None, p')"
    by (cases "forEachObserver ev p") simp
  from forEachObserver_ok [OF f] f show ?thesis by simp
qed

lemma sampleEnv_simps [simp]:
  "sc_IsSeekable sampleEnv = IsSeekable"
  "sc_Header sampleEnv = Scanner_Header"
  "sc_NextObjectHeader sampleEnv = Scanner_NextObjectHeader"
  "sc_NextObject sampleEnv = Scanner_NextObject"
  "sc_SeekFromStart sampleEnv = Scanner_SeekFromStart"
  "sc_Checksum sampleEnv = Scanner_Checksum"
  "st_EncodedObject sampleEnv = EncodedObject sampleHash"
  "st_SetEncodedObject sampleEnv = (\<lambda>s obj. SetEncodedObject s (asEncodedObject sampleHash obj))"
  "hasher_Write sampleEnv = (\<lambda>t b. None)"
  "hasher_Sum sampleEnv = sampleHash"
  "PatchDelta sampleEnv = patchDelta"
  "DefaultMaxSize sampleEnv = 100663296"
  by (simp_all add: sampleEnv_def)

lemma sample_hashes [simp]:
  "sampleHash BlobObject hello = helloHash" "sampleHash BlobObject helloWorld = worldHash"
  by (simp_all add: helloHash_def worldHash_def)

lemma hash_values: "helloHash = 8254612445302402194632285288224"
  "worldHash = 714075931485781431906562341588848438706869950376"
  by (simp_all add: helloHash_def worldHash_def sampleHash_def framing_def hello_def helloWorld_def)

lemma hashes_distinct [simp]:
  "helloHash \<noteq> worldHash" "worldHash \<noteq> helloHash" "helloHash \<noteq> 0" "worldHash \<noteq> 0"
  by (simp_all add: hash_values)

lemma patch_world [simp]: "patchDelta hello worldDelta = Inr helloWorld"
  by (simp add: patchDelta_def hello_def worldDelta_def helloWorld_def)

lemma lengths [simp]: "length hello = 6" "length helloWorld = 13" "hello \<noteq> []" "helloWorld \<noteq> []"
  by (simp_all add: hello_def helloWorld_def)

lemmas scanner_defs = Scanner_Header_def Scanner_NextObjectHeader_def Scanner_NextObject_def
  Scanner_SeekFromStart_def Scanner_Checksum_def packOf_def helloEntry_def ofsEntry_def refEntry_def

lemmas storage_defs = emptyStorage_def NewObjectStorage_def noFiles_def sampleWriter_def
  SetEncodedObject_def asEncodedObject_def Write_def SetType_def SetSize_def newMemoryObject_def
  readerOf_def CheckClose_def fileObject_def looseFile_def EncodedObject.simps getFromUnpacked_def
  isNotFound_def IsNotExist_def

lemmas index_defs = init_def onHeader_def indexObject_def indexSwitch_def indexPayload_def
  alloc_def modify_def node_def newDeltaObject_def newBaseObject_def getSHA1_def IsDelta_def

lemmas resolve_defs = resolveOne_def getStored_def readData_def resolveObject_def
  applyPatchBase_def BufferLRU_Get_def BufferLRU_Put_def onInflatedObjectHeader_def
  onInflatedObjectContent_def onFooter_def node_def modify_def IsDelta_def getSHA1_def

lemma accepting_all: "\<forall>x \<in> set [accepting, accepting]. \<forall>es. x es = None"
  by (simp add: accepting_def)

lemma s4_new:
  "NewParserWithStorage sampleEnv (packOf False [helloEntry, ofsEntry]) (Some emptyStorage)
     [accepting, accepting] = Inr s4Parser"
  by (simp add: NewParserWithStorage_def s4Parser_def packOf_def)

lemma replicate_2 [simp]: "replicate 2 x = [x, x]"
  by (simp add: numeral_2_eq_2)

lemmas loop_unroll = indexLoop.simps [of _ 0] indexLoop.simps [of _ "Suc 0"]
  indexLoop.simps [of _ "Suc (Suc 0)"]

lemma broadcast_2: "broadcast 2 ev = [(0, ev, None), (Suc 0, ev, None)]"
  by (simp add: broadcast_def numeral_2_eq_2)

lemma broadcast_len2: "broadcast (Suc (Suc 0)) ev = [(0, ev, None), (Suc 0, ev, None)]"
  by (simp add: broadcast_def)

lemma s4_run: "Parse (Suc (Suc 0)) sampleEnv s4Parser = Some (Inr 99, s4Done)"
  by (simp add: Parse_def indexObjects_def resolveDeltas_def loop_unroll index_defs resolve_defs
        forEachObserver_accepting accepting_all s4Parser_def scanner_defs storage_defs
        NewBufferLRU_def broadcast_2 broadcast_len2 s4Done_def)

text \<open>
  Claim C3. A parser over a scanner that is not seekable, built without a storage, is refused
  with the not-seekable-source error. Whenever the scanner is seekable or a storage is given a
  parser is returned, and for a scanner that is not seekable its \<open>deltas\<close> map is allocated
  (and empty).
\<close>

theorem C3_NewParserWithStorage:
  "(\<not> sc_IsSeekable env sc \<and> st = None
      \<longrightarrow> NewParserWithStorage env sc st obs = Inl ErrNotSeekableSource)
   \<and> (sc_IsSeekable env sc \<or> st \<noteq> None
      \<longrightarrow> (\<exists>p. NewParserWithStorage env sc st obs = Inr p
             \<and> storage p = st \<and> scanner p = sc \<and> ob p = obs
             \<and> (\<not> sc_IsSeekable env sc \<longrightarrow> deltas p = Some Map.empty)))"
  by (auto simp: NewParserWithStorage_def)

text \<open>
  The theorem for claim C3 at the scanner of a pack that is not seekable, without and with a
  storage.
\<close>

theorem C3_witness:
  "NewParserWithStorage sampleEnv (packOf False [helloEntry, ofsEntry]) None [accepting]
     = Inl ErrNotSeekableSource
   \<and> (\<exists>p. NewParserWithStorage sampleEnv (packOf False [helloEntry, ofsEntry]) (Some emptyStorage)
             [accepting] = Inr p
          \<and> deltas p = Some Map.empty)"
  using C3_NewParserWithStorage [of sampleEnv "packOf False [helloEntry, ofsEntry]" None "[accepting]"]
    C3_NewParserWithStorage [of sampleEnv "packOf False [helloEntry, ofsEntry]" "Some emptyStorage"
      "[accepting]"]
  by (auto simp: packOf_def)

lemma rejected_run:
  "Parse (Suc (Suc 0)) sampleEnv rejectedParser = Some (Inl (Errorf ''observer failed''), rejectedDone)"
  by (simp add: Parse_def init_def onHeader_def forEachObserver_def rejectedParser_def
        rejectedDone_def s4Parser_def scanner_defs accepting_def rejecting_def events_of_def)


lemma indexPrefix_loop: "indexPrefix env j p = Some q \<Longrightarrow> indexLoop env 0 p = indexLoop env j q"
proof (induction j arbitrary: q)
  case 0
  then show ?case by simp
next
  case (Suc j)
  from Suc.prems obtain q0 where q0: "indexPrefix env j p = Some q0" "j < unat (count q0)"
    "indexObject env j q0 = (None, q)"
    by (auto split: option.splits if_splits prod.splits)
  from q0(2,3) have "indexLoop env j q0 = indexLoop env (Suc j) q"
    by (simp add: indexLoop.simps [of env j q0])
  with Suc.IH [OF q0(1)] show ?case by simp
qed

lemma indexSwitch_valid:
  "indexSwitch oh p = (Inr (delta, ota), p') \<Longrightarrow> pointersValid p
     \<Longrightarrow> pointersValid p' \<and> ota < length (heap p')"
  by (fastforce simp: indexSwitch_def alloc_def modify_def Let_def pointersValid_def less_Suc_eq
           split: if_splits option.splits)

lemma indexPayload_valid:
  "indexPayload env i oh delta ota p = (r, p') \<Longrightarrow> pointersValid p \<Longrightarrow> ota < length (heap p)
     \<Longrightarrow> pointersValid p'"
  by (fastforce simp: indexPayload_def modify_def Let_def pointersValid_def
           split: if_splits option.splits sum.splits prod.splits)

lemma indexObject_valid:
  "indexObject env i p = (None, p') \<Longrightarrow> pointersValid p \<Longrightarrow> pointersValid p'"
proof -
  assume io: "indexObject env i p = (None, p')" and v: "pointersValid p"
  then obtain oh sc delta ota p1 where h: "sc_NextObjectHeader env (scanner p) = (Inr oh, sc)"
    and sw: "indexSwitch oh (p\<lparr>scanner := sc\<rparr>) = (Inr (delta, ota), p1)"
    and pl: "indexPayload env i oh delta ota p1 = (None, p')"
    by (auto simp: indexObject_def split: sum.splits prod.splits)
  from v have "pointersValid (p\<lparr>scanner := sc\<rparr>)" by (simp add: pointersValid_def)
  from indexSwitch_valid [OF sw this] indexPayload_valid [OF pl] show ?thesis by simp
qed

lemma indexPrefix_valid:
  "indexPrefix env j p = Some q \<Longrightarrow> pointersValid p \<Longrightarrow> pointersValid q"
proof (induction j arbitrary: q)
  case 0
  then show ?case by simp
next
  case (Suc j)
  from Suc.prems obtain q0 where q0: "indexPrefix env j p = Some q0"
    "indexObject env j q0 = (None, q)"
    by (auto split: option.splits if_splits prod.splits)
  from indexObject_valid [OF q0(2) Suc.IH [OF q0(1) Suc.prems(2)]] show ?case .
qed

lemma init_valid: "init env p = (None, p1) \<Longrightarrow> pointersValid p1"
  by (auto simp: init_def pointersValid_def split: sum.splits prod.splits option.splits)

lemma indexPayload_delta_heap:
  assumes "indexPayload env i oh True ota p = (r, p')"
  shows "length (heap p') = length (heap p)
         \<and> Parent (heap p' ! a) = Parent (heap p ! a) \<and> Children (heap p' ! a) = Children (heap p ! a)
         \<and> DiskType (heap p' ! a) = DiskType (heap p ! a) \<and> Offset (heap p' ! a) = Offset (heap p ! a)"
proof (cases "ota < length (heap p)")
  case True
  with assms show ?thesis
    by (auto simp: indexPayload_def modify_def Let_def nth_list_update
             split: if_splits option.splits sum.splits prod.splits)
next
  case False
  with assms show ?thesis
    by (auto simp: indexPayload_def modify_def Let_def list_update_beyond
             split: if_splits option.splits sum.splits prod.splits)
qed

text \<open>
  Claim C7. Take the index pass at the moment it reads the header of an OFS delta. When
  \<open>oiByOffset\<close> has no object at the base offset of the header, \<open>Parse\<close> fails with object not
  found. When it has one, the iteration allocates a new node for the delta, with that object
  as its parent, and appends it to the end of the children of the parent.
\<close>

theorem C7_OFS_delta_base:
  assumes "init env p0 = (None, p1)" and "indexPrefix env j p1 = Some q" and "j < unat (count q)"
    and "sc_NextObjectHeader env (scanner q) = (Inr oh, sc)" and "oh_Type oh = OFSDeltaObject"
  shows "(oiByOffset q (oh_OffsetReference oh) = None
            \<longrightarrow> (\<exists>p'. Parse fuel env p0 = Some (Inl ErrObjectNotFound, p')))
         \<and> (\<forall>parent. oiByOffset q (oh_OffsetReference oh) = Some parent \<longrightarrow>
               length (heap (snd (indexObject env j q))) = Suc (length (heap q))
               \<and> Parent (node (snd (indexObject env j q)) (length (heap q))) = Some parent
               \<and> DiskType (node (snd (indexObject env j q)) (length (heap q))) = OFSDeltaObject
               \<and> Offset (node (snd (indexObject env j q)) (length (heap q))) = oh_Offset oh
               \<and> Children (node (snd (indexObject env j q)) parent)
                   = Children (node q parent) @ [length (heap q)])"
proof (rule conjI; rule impI allI)
  assume none: "oiByOffset q (oh_OffsetReference oh) = None"
  with assms(4,5) have "indexObject env j q = (Some ErrObjectNotFound, q\<lparr>scanner := sc\<rparr>)"
    by (simp add: indexObject_def indexSwitch_def)
  with assms(3) have "indexLoop env j q = (Some ErrObjectNotFound, q\<lparr>scanner := sc\<rparr>)"
    by (simp add: indexLoop.simps [of env j q])
  with indexPrefix_loop [OF assms(2)]
  have "indexObjects env p1 = (Some ErrObjectNotFound, q\<lparr>scanner := sc\<rparr>)"
    by (simp add: indexObjects_def)
  with assms(1) show "\<exists>p'. Parse fuel env p0 = Some (Inl ErrObjectNotFound, p')"
    by (simp add: Parse_def)
next
  fix parent
  show "oiByOffset q (oh_OffsetReference oh) = Some parent \<longrightarrow>
        length (heap (snd (indexObject env j q))) = Suc (length (heap q))
        \<and> Parent (node (snd (indexObject env j q)) (length (heap q))) = Some parent
        \<and> DiskType (node (snd (indexObject env j q)) (length (heap q))) = OFSDeltaObject
        \<and> Offset (node (snd (indexObject env j q)) (length (heap q))) = oh_Offset oh
        \<and> Children (node (snd (indexObject env j q)) parent)
            = Children (node q parent) @ [length (heap q)]"
  proof
    assume some: "oiByOffset q (oh_OffsetReference oh) = Some parent"
    from indexPrefix_valid [OF assms(2) init_valid [OF assms(1)]] some
    have par: "parent < length (heap q)"
      by (auto simp: pointersValid_def)
    define q1 where "q1 = modify parent (\<lambda>n. n\<lparr>Children := Children n @ [length (heap q)]\<rparr>)
      (q\<lparr>scanner := sc, heap := heap q @ [newDeltaObject (oh_Offset oh) (oh_Length oh) OFSDeltaObject (Some parent)]\<rparr>)"
    have sw: "indexSwitch oh (q\<lparr>scanner := sc\<rparr>) = (Inr (True, length (heap q)), q1)"
      using some assms(5) by (simp add: indexSwitch_def alloc_def q1_def)
    have io: "indexObject env j q = indexPayload env j oh True (length (heap q)) q1"
      using assms(4) sw by (simp add: indexObject_def)
    obtain r q' where pl: "indexPayload env j oh True (length (heap q)) q1 = (r, q')"
      by (cases "indexPayload env j oh True (length (heap q)) q1")
    note h = indexPayload_delta_heap [OF pl]
    have q1: "length (heap q1) = Suc (length (heap q))"
      "heap q1 ! length (heap q) = newDeltaObject (oh_Offset oh) (oh_Length oh) OFSDeltaObject (Some parent)"
      "Children (heap q1 ! parent) = Children (heap q ! parent) @ [length (heap q)]"
      using par by (simp_all add: q1_def modify_def nth_append)
    from h [of "length (heap q)"] h [of parent] q1 show
      "length (heap (snd (indexObject env j q))) = Suc (length (heap q))
        \<and> Parent (node (snd (indexObject env j q)) (length (heap q))) = Some parent
        \<and> DiskType (node (snd (indexObject env j q)) (length (heap q))) = OFSDeltaObject
        \<and> Offset (node (snd (indexObject env j q)) (length (heap q))) = oh_Offset oh
        \<and> Children (node (snd (indexObject env j q)) parent)
            = Children (node q parent) @ [length (heap q)]"
      by (simp add: io pl node_def newDeltaObject_def)
  qed
qed

lemma accepting_one: "\<forall>x \<in> set [accepting]. \<forall>es. x es = None"
  by (simp add: accepting_def)

lemma orphan_init:
  "init sampleEnv orphanParser =
     (None, orphanParser\<lparr>scanner := packOf True [ofsEntry], count := 1, oi := [None],
                          calls := [(0, OnHeader 1, None)]\<rparr>)"
  by (simp add: init_def onHeader_def forEachObserver_accepting accepting_one orphanParser_def
        s4Parser_def scanner_defs broadcast_def)

lemma s4_init:
  "init sampleEnv s4Parser =
     (None, s4Parser\<lparr>count := 2, oi := [None, None], calls := broadcast 2 (OnHeader 2)\<rparr>)"
  by (simp add: init_def onHeader_def forEachObserver_accepting accepting_all
        s4Parser_def scanner_defs broadcast_2 broadcast_len2)

lemma s4_index0:
  "indexObject sampleEnv 0 (s4Parser\<lparr>count := 2, oi := [None, None], calls := broadcast 2 (OnHeader 2)\<rparr>)
     = (None, s4Indexed1)"
  "count s4Indexed1 = 2" "length (heap s4Indexed1) = Suc 0" "oiByOffset s4Indexed1 = [12 \<mapsto> 0]"
  "Children (node s4Indexed1 0) = []"
  "scanner s4Indexed1 = (packOf False [helloEntry, ofsEntry])\<lparr>cursor := 1\<rparr>"
  by (simp_all add: index_defs s4Parser_def scanner_defs storage_defs s4Indexed1_def)

text \<open>
  The theorem for claim C7 at the pack of the lone OFS delta, where the base is missing, and
  at the second entry of the pack of the blob and its OFS delta, where the base is node 0.
\<close>

theorem C7_witness:
  "(\<exists>p'. Parse (Suc 0) sampleEnv orphanParser = Some (Inl ErrObjectNotFound, p'))
   \<and> length (heap (snd (indexObject sampleEnv 1 s4Indexed1))) = 2
   \<and> Parent (node (snd (indexObject sampleEnv 1 s4Indexed1)) 1) = Some 0
   \<and> DiskType (node (snd (indexObject sampleEnv 1 s4Indexed1)) 1) = OFSDeltaObject
   \<and> Offset (node (snd (indexObject sampleEnv 1 s4Indexed1)) 1) = 27
   \<and> Children (node (snd (indexObject sampleEnv 1 s4Indexed1)) 0) = [1]"
proof -
  have a: "indexPrefix sampleEnv 0
             (orphanParser\<lparr>scanner := packOf True [ofsEntry], count := 1, oi := [None],
                            calls := [(0, OnHeader 1, None)]\<rparr>)
           = Some (orphanParser\<lparr>scanner := packOf True [ofsEntry], count := 1, oi := [None],
                            calls := [(0, OnHeader 1, None)]\<rparr>)"
    by simp
  have b: "indexPrefix sampleEnv (Suc 0)
             (s4Parser\<lparr>count := 2, oi := [None, None], calls := broadcast 2 (OnHeader 2)\<rparr>)
           = Some s4Indexed1"
    by (simp add: s4_index0(1))
  have ha: "sc_NextObjectHeader sampleEnv
              (scanner (orphanParser\<lparr>scanner := packOf True [ofsEntry], count := 1, oi := [None],
                            calls := [(0, OnHeader 1, None)]\<rparr>))
            = (Inr (pe_Header ofsEntry), packOf True [ofsEntry])"
    by (simp add: scanner_defs)
  have hb: "sc_NextObjectHeader sampleEnv (scanner s4Indexed1)
            = (Inr (pe_Header ofsEntry), (packOf False [helloEntry, ofsEntry])\<lparr>cursor := 1\<rparr>)"
    by (simp add: s4_index0 scanner_defs)
  have t: "oh_Type (pe_Header ofsEntry) = OFSDeltaObject" by (simp add: ofsEntry_def)
  from C7_OFS_delta_base [OF orphan_init a _ ha t, of "Suc 0"]
    C7_OFS_delta_base [OF s4_init b _ hb t]
  show ?thesis
    by (simp add: s4_index0 orphanParser_def s4Parser_def ofsEntry_def)
qed

end
